theory Spec2Isabelle
  imports Main "HOL-Library.Word"
begin

section \<open>The callable variant: \<open>CallbackContainer\<close>\<close>

text \<open>
  \<^verbatim>\<open>enum class Type {VALUE, STREAMING, _}\<close>: the tag of the container. The enumerator
  \<^verbatim>\<open>_\<close> (nothing stored) is written \<open>Underscore\<close>.
\<close>

datatype Type = VALUE | STREAMING | Underscore

text \<open>
  \<^verbatim>\<open>union Callback\<close> has the members \<^verbatim>\<open>value\<close> and \<^verbatim>\<open>streaming\<close>. Its
  default constructor and its destructor have empty bodies, so the union itself never
  starts or ends the lifetime of a member: the state of the storage is which member has
  been constructed in it (and with what), or none. The two \<^verbatim>\<open>std::function\<close> types
  \<^verbatim>\<open>ValueCallbackFunction\<close> and \<^verbatim>\<open>StreamingCallbackFunction\<close> are opaque to this
  file; they are the type parameters \<open>'v\<close> and \<open>'s\<close>.
\<close>

datatype ('v, 's) Callback =
    Callback_inactive
  | Callback_value 'v
  | Callback_streaming 's

text \<open>
  Reading a member, as in \<^verbatim>\<open>other.callback.value\<close>. Reading a member that is not the
  live one is undefined behaviour; it is the result \<open>None\<close> here and in every function
  below that returns an option.
\<close>

fun value_member :: "('v, 's) Callback \<Rightarrow> 'v option" where
  "value_member (Callback_value f) = Some f"
| "value_member _ = None"

fun streaming_member :: "('v, 's) Callback \<Rightarrow> 's option" where
  "streaming_member (Callback_streaming g) = Some g"
| "streaming_member _ = None"

record ('v, 's) CallbackContainer =
  type :: Type
  callback :: "('v, 's) Callback"

text \<open>\<^verbatim>\<open>CallbackContainer() : type(Type::_) {}\<close>\<close>

definition CallbackContainer_default :: "('v, 's) CallbackContainer" where
  "CallbackContainer_default = \<lparr>type = Underscore, callback = Callback_inactive\<rparr>"

text \<open>\<^verbatim>\<open>CallbackContainer(const ValueCallbackFunction& function)\<close>\<close>

definition CallbackContainer_value :: "'v \<Rightarrow> ('v, 's) CallbackContainer" where
  "CallbackContainer_value f = \<lparr>type = VALUE, callback = Callback_value f\<rparr>"

text \<open>\<^verbatim>\<open>CallbackContainer(const StreamingCallbackFunction& function)\<close>\<close>

definition CallbackContainer_streaming :: "'s \<Rightarrow> ('v, 's) CallbackContainer" where
  "CallbackContainer_streaming g = \<lparr>type = STREAMING, callback = Callback_streaming g\<rparr>"

text \<open>
  The copy constructor: the tag is copied, the union member is default-initialised
  (nothing live), and the switch on the source's tag copy-constructs the payload from
  the source's member of that shape.
\<close>

definition CallbackContainer_copy ::
  "('v, 's) CallbackContainer \<Rightarrow> ('v, 's) CallbackContainer option" where
  "CallbackContainer_copy other =
     (case type other of
        VALUE \<Rightarrow>
          (case value_member (callback other) of
             None \<Rightarrow> None
           | Some f \<Rightarrow> Some \<lparr>type = VALUE, callback = Callback_value f\<rparr>)
      | STREAMING \<Rightarrow>
          (case streaming_member (callback other) of
             None \<Rightarrow> None
           | Some g \<Rightarrow> Some \<lparr>type = STREAMING, callback = Callback_streaming g\<rparr>)
      | Underscore \<Rightarrow> Some \<lparr>type = Underscore, callback = Callback_inactive\<rparr>)"

text \<open>
  The move constructor. The new container is built as by the copy constructor, from
  \<^verbatim>\<open>std::move\<close> of the source's payload; the source keeps its tag and its live member,
  whose content after the move is valid but unspecified: \<open>mv\<close> and \<open>ms\<close> stand for
  whatever the library leaves there. The result is the pair of the new container and
  the source afterwards.
\<close>

definition CallbackContainer_move ::
  "('v \<Rightarrow> 'v) \<Rightarrow> ('s \<Rightarrow> 's) \<Rightarrow> ('v, 's) CallbackContainer \<Rightarrow>
     (('v, 's) CallbackContainer \<times> ('v, 's) CallbackContainer) option" where
  "CallbackContainer_move mv ms other =
     (case type other of
        VALUE \<Rightarrow>
          (case value_member (callback other) of
             None \<Rightarrow> None
           | Some f \<Rightarrow>
               Some (\<lparr>type = VALUE, callback = Callback_value f\<rparr>,
                     other\<lparr>callback := Callback_value (mv f)\<rparr>))
      | STREAMING \<Rightarrow>
          (case streaming_member (callback other) of
             None \<Rightarrow> None
           | Some g \<Rightarrow>
               Some (\<lparr>type = STREAMING, callback = Callback_streaming g\<rparr>,
                     other\<lparr>callback := Callback_streaming (ms g)\<rparr>))
      | Underscore \<Rightarrow> Some (\<lparr>type = Underscore, callback = Callback_inactive\<rparr>, other))"

text \<open>
  \<^verbatim>\<open>operator=(const CallbackContainer&& other)\<close>: the tag is overwritten first; then
  a payload of the source's shape is constructed by placement new in the storage of
  \<^verbatim>\<open>*this\<close>. The source is const, so \<^verbatim>\<open>std::move\<close> of its member selects the copy
  constructor of \<^verbatim>\<open>std::function\<close> and the source is unchanged. Nothing destroys
  the payload \<^verbatim>\<open>*this\<close> held before: in the cases VALUE and STREAMING the placement new
  reuses its storage (which ends its lifetime without running its destructor), and in
  the case \<^verbatim>\<open>_\<close> the function returns with the storage untouched.
\<close>

definition CallbackContainer_assign_move ::
  "('v, 's) CallbackContainer \<Rightarrow> ('v, 's) CallbackContainer \<Rightarrow>
     ('v, 's) CallbackContainer option" where
  "CallbackContainer_assign_move this other =
     (case type other of
        VALUE \<Rightarrow>
          (case value_member (callback other) of
             None \<Rightarrow> None
           | Some f \<Rightarrow> Some (this\<lparr>type := VALUE, callback := Callback_value f\<rparr>))
      | STREAMING \<Rightarrow>
          (case streaming_member (callback other) of
             None \<Rightarrow> None
           | Some g \<Rightarrow> Some (this\<lparr>type := STREAMING, callback := Callback_streaming g\<rparr>))
      | Underscore \<Rightarrow> Some (this\<lparr>type := Underscore\<rparr>))"

text \<open>
  \<^verbatim>\<open>operator=(const CallbackContainer& other)\<close> is
  \<^verbatim>\<open>return *this = CallbackContainer(other);\<close>: a temporary made by the copy
  constructor, assigned by the operator above (an rvalue binds to its parameter).
\<close>

definition CallbackContainer_assign_copy ::
  "('v, 's) CallbackContainer \<Rightarrow> ('v, 's) CallbackContainer \<Rightarrow>
     ('v, 's) CallbackContainer option" where
  "CallbackContainer_assign_copy this other =
     (case CallbackContainer_copy other of
        None \<Rightarrow> None
      | Some tmp \<Rightarrow> CallbackContainer_assign_move this tmp)"

text \<open>
  The destructor destroys the member the tag names. The result is the state of the
  storage when the destructor returns: \<open>Callback_inactive\<close> when nothing is left
  behind, a payload when one was never destroyed.
\<close>

definition CallbackContainer_destroy ::
  "('v, 's) CallbackContainer \<Rightarrow> ('v, 's) Callback option" where
  "CallbackContainer_destroy this =
     (case type this of
        VALUE \<Rightarrow>
          (case value_member (callback this) of
             None \<Rightarrow> None
           | Some f \<Rightarrow> Some Callback_inactive)
      | STREAMING \<Rightarrow>
          (case streaming_member (callback this) of
             None \<Rightarrow> None
           | Some g \<Rightarrow> Some Callback_inactive)
      | Underscore \<Rightarrow> Some (callback this))"

text \<open>\<^verbatim>\<open>operator bool() { return type != Type::_; }\<close>\<close>

definition CallbackContainer_bool :: "('v, 's) CallbackContainer \<Rightarrow> bool" where
  "CallbackContainer_bool this = (type this \<noteq> Underscore)"

text \<open>
  The tag describes the payload: the live member of the union is the one of the tag's
  shape, and no member is live when the tag is \<^verbatim>\<open>_\<close>.
\<close>

definition tag_describes_payload :: "('v, 's) CallbackContainer \<Rightarrow> bool" where
  "tag_describes_payload c =
     (case callback c of
        Callback_inactive \<Rightarrow> type c = Underscore
      | Callback_value f \<Rightarrow> type c = VALUE
      | Callback_streaming g \<Rightarrow> type c = STREAMING)"

section \<open>The registry: \<open>FunctionStorage\<close>\<close>

text \<open>
  Modelled from the spec: \<^verbatim>\<open>Bytecode::Op\<close> is declared in \<^verbatim>\<open>bytecode.hpp\<close>, which is not
  among the sources. It is a finite enumeration owned by the bytecode compiler, with
  the reserved no-operation opcode \<^verbatim>\<open>Nop\<close>; the registry treats an opcode as an opaque
  token. The other opcodes are the type parameter \<open>'o\<close>.
\<close>

datatype 'o Op = Nop | Op 'o

text \<open>
  \<^verbatim>\<open>struct FunctionData\<close>, with \<^verbatim>\<open>unsigned int num_args\<close> as a 32-bit word. The field
  \<^verbatim>\<open>function\<close> is written \<open>function'\<close>.
\<close>

record ('o, 'v, 's) FunctionData =
  num_args :: "32 word"
  op :: "'o Op"
  function' :: "('v, 's) CallbackContainer"

text \<open>The default member initialisers and \<^verbatim>\<open>FunctionData() : function() {}\<close>.\<close>

definition FunctionData_default :: "('o, 'v, 's) FunctionData" where
  "FunctionData_default = \<lparr>num_args = 0, op = Nop, function' = CallbackContainer_default\<rparr>"

text \<open>
  \<^verbatim>\<open>class FunctionStorage\<close> has the one data member
  \<^verbatim>\<open>std::map<std::string, std::vector<FunctionData>> m_map\<close>.
\<close>

record ('o, 'v, 's) FunctionStorage =
  m_map :: "string \<rightharpoonup> ('o, 'v, 's) FunctionData list"

text \<open>The implicit default constructor: an empty map.\<close>

definition FunctionStorage_default :: "('o, 'v, 's) FunctionStorage" where
  "FunctionStorage_default = \<lparr>m_map = Map.empty\<rparr>"

text \<open>
  The loop \<^verbatim>\<open>for (auto &i: vec) if (i.num_args == num_args) return i;\<close> of
  \<^verbatim>\<open>get_or_new\<close>: the position of the first element with that arity.
\<close>

fun first_with_args :: "('o, 'v, 's) FunctionData list \<Rightarrow> 32 word \<Rightarrow> nat option" where
  "first_with_args [] n = None"
| "first_with_args (i # vec) n =
     (if num_args i = n then Some 0 else map_option Suc (first_with_args vec n))"

text \<open>
  \<^verbatim>\<open>get_or_new\<close> returns a reference to an element of a vector of the map. A reference
  is the name of the vector and the position in it; the function returns it with the
  registry as it has become. \<^verbatim>\<open>m_map[name]\<close> inserts an empty vector under a name that
  is not in the map. A vector is the list of the values of its elements: when
  \<^verbatim>\<open>emplace_back\<close> reallocates, the elements are moved to the new storage with their
  values.
\<close>

definition get_or_new ::
  "string \<Rightarrow> 32 word \<Rightarrow> ('o, 'v, 's) FunctionStorage \<Rightarrow>
     (string \<times> nat) \<times> ('o, 'v, 's) FunctionStorage" where
  "get_or_new name n s =
     (let vec = (case m_map s name of None \<Rightarrow> [] | Some v \<Rightarrow> v) in
      case first_with_args vec n of
        Some i \<Rightarrow> ((name, i), s\<lparr>m_map := (m_map s)(name \<mapsto> vec)\<rparr>)
      | None \<Rightarrow>
          ((name, length vec),
           s\<lparr>m_map := (m_map s)(name \<mapsto> vec @ [FunctionData_default\<lparr>num_args := n\<rparr>])\<rparr>))"

text \<open>
  An assignment through such a reference: \<open>upd\<close> computes the new content of the
  element from the old one and may itself be undefined. A reference to no element is
  undefined behaviour.
\<close>

definition assign_through ::
  "string \<times> nat \<Rightarrow> (('o, 'v, 's) FunctionData \<Rightarrow> ('o, 'v, 's) FunctionData option) \<Rightarrow>
     ('o, 'v, 's) FunctionStorage \<Rightarrow> ('o, 'v, 's) FunctionStorage option" where
  "assign_through r upd s =
     (case m_map s (fst r) of
        None \<Rightarrow> None
      | Some vec \<Rightarrow>
          if snd r < length vec then
            (case upd (vec ! snd r) of
               None \<Rightarrow> None
             | Some d \<Rightarrow> Some (s\<lparr>m_map := (m_map s)(fst r \<mapsto> vec[snd r := d])\<rparr>))
          else None)"

text \<open>\<^verbatim>\<open>add_builtin\<close>: \<^verbatim>\<open>auto& data = get_or_new(name, num_args); data.op = op;\<close>\<close>

definition add_builtin ::
  "string \<Rightarrow> 32 word \<Rightarrow> 'o Op \<Rightarrow> ('o, 'v, 's) FunctionStorage \<Rightarrow>
     ('o, 'v, 's) FunctionStorage option" where
  "add_builtin name n opc s =
     (case get_or_new name n s of
        (data, s') \<Rightarrow> assign_through data (\<lambda>d. Some (d\<lparr>op := opc\<rparr>)) s')"

text \<open>
  \<^verbatim>\<open>add_callback\<close> is a template over the type \<^verbatim>\<open>T\<close> of the callback. The callbacks
  of the registry have one of two shapes, \<^verbatim>\<open>ValueCallbackFunction\<close> and
  \<^verbatim>\<open>StreamingCallbackFunction\<close>, the two types a \<^verbatim>\<open>CallbackContainer\<close> is constructible
  from; the argument is a value of one of them. (The assignment
  \<^verbatim>\<open>data.function = function\<close> also compiles for an argument that is itself a
  \<^verbatim>\<open>CallbackContainer\<close>; it is then the copy assignment \<open>CallbackContainer_assign_copy\<close>
  to the stored container. That instantiation passes no callback and is not among the
  calls of a history below.)
\<close>

datatype ('v, 's) T = ValueCallbackFunction 'v | StreamingCallbackFunction 's

text \<open>The converting constructor that the type of the argument selects.\<close>

fun CallbackContainer_from :: "('v, 's) T \<Rightarrow> ('v, 's) CallbackContainer" where
  "CallbackContainer_from (ValueCallbackFunction f) = CallbackContainer_value f"
| "CallbackContainer_from (StreamingCallbackFunction g) = CallbackContainer_streaming g"

text \<open>
  What it is for a container to hold a callback, written out without the constructors:
  the tag names the shape of the callback and the live member of the union is the
  callback.
\<close>

abbreviation holding :: "('v, 's) T \<Rightarrow> ('v, 's) CallbackContainer" where
  "holding fn \<equiv>
     (case fn of
        ValueCallbackFunction f \<Rightarrow> \<lparr>type = VALUE, callback = Callback_value f\<rparr>
      | StreamingCallbackFunction g \<Rightarrow> \<lparr>type = STREAMING, callback = Callback_streaming g\<rparr>)"

text \<open>
  \<^verbatim>\<open>data.function = function\<close> converts the argument to a temporary container and
  assigns it with \<^verbatim>\<open>operator=(const CallbackContainer&&)\<close>.
\<close>

definition add_callback ::
  "string \<Rightarrow> 32 word \<Rightarrow> ('v, 's) T \<Rightarrow> ('o, 'v, 's) FunctionStorage \<Rightarrow>
     ('o, 'v, 's) FunctionStorage option" where
  "add_callback name n function s =
     (case get_or_new name n s of
        (data, s') \<Rightarrow>
          assign_through data
            (\<lambda>d. case CallbackContainer_assign_move (function' d)
                         (CallbackContainer_from function) of
                    None \<Rightarrow> None
                  | Some c \<Rightarrow> Some (d\<lparr>function' := c\<rparr>))
            s')"

text \<open>
  \<^verbatim>\<open>get\<close> is const and returns a pointer to a const element, or \<^verbatim>\<open>nullptr\<close>; its
  callers read one field through it at once. The result is the element pointed to.
  \<^verbatim>\<open>m_map.find\<close> inserts nothing.
\<close>

definition get ::
  "string \<Rightarrow> 32 word \<Rightarrow> ('o, 'v, 's) FunctionStorage \<Rightarrow> ('o, 'v, 's) FunctionData option" where
  "get name n s =
     (case m_map s name of
        None \<Rightarrow> None
      | Some vec \<Rightarrow> find (\<lambda>i. num_args i = n) vec)"

definition find_builtin ::
  "string \<Rightarrow> 32 word \<Rightarrow> ('o, 'v, 's) FunctionStorage \<Rightarrow> 'o Op" where
  "find_builtin name n s =
     (case get name n s of
        Some d \<Rightarrow> op d
      | None \<Rightarrow> Nop)"

text \<open>
  \<^verbatim>\<open>find_callback\<close> returns by value: \<^verbatim>\<open>return ptr->function;\<close> copy-constructs the
  result, \<^verbatim>\<open>return {};\<close> default-constructs it.
\<close>

definition find_callback ::
  "string \<Rightarrow> 32 word \<Rightarrow> ('o, 'v, 's) FunctionStorage \<Rightarrow> ('v, 's) CallbackContainer option" where
  "find_callback name n s =
     (case get name n s of
        Some d \<Rightarrow> CallbackContainer_copy (function' d)
      | None \<Rightarrow> Some CallbackContainer_default)"

section \<open>Histories of calls\<close>

text \<open>
  A call of one of the four public member functions, and what it returns to the caller.
  \<^verbatim>\<open>add_builtin\<close> and \<^verbatim>\<open>add_callback\<close> return nothing; the two lookups are const
  member functions and return by value.
\<close>

datatype ('o, 'v, 's) call =
    Add_builtin string "32 word" "'o Op"
  | Add_callback string "32 word" "('v, 's) T"
  | Find_builtin string "32 word"
  | Find_callback string "32 word"

datatype ('o, 'v, 's) returned =
    Void
  | Returned_op "'o Op"
  | Returned_callback "('v, 's) CallbackContainer"

fun exec ::
  "('o, 'v, 's) call \<Rightarrow> ('o, 'v, 's) FunctionStorage \<Rightarrow>
     (('o, 'v, 's) returned \<times> ('o, 'v, 's) FunctionStorage) option" where
  "exec (Add_builtin name n opc) s =
     (case add_builtin name n opc s of None \<Rightarrow> None | Some s' \<Rightarrow> Some (Void, s'))"
| "exec (Add_callback name n function) s =
     (case add_callback name n function s of None \<Rightarrow> None | Some s' \<Rightarrow> Some (Void, s'))"
| "exec (Find_builtin name n) s = Some (Returned_op (find_builtin name n s), s)"
| "exec (Find_callback name n) s =
     (case find_callback name n s of None \<Rightarrow> None | Some c \<Rightarrow> Some (Returned_callback c, s))"

text \<open>
  A history of calls on one registry, in order: the values returned, one per call, and
  the registry at the end. The history is undefined as soon as one call is.
\<close>

fun run ::
  "('o, 'v, 's) call list \<Rightarrow> ('o, 'v, 's) FunctionStorage \<Rightarrow>
     (('o, 'v, 's) returned list \<times> ('o, 'v, 's) FunctionStorage) option" where
  "run [] s = Some ([], s)"
| "run (c # cs) s =
     (case exec c s of
        None \<Rightarrow> None
      | Some (r, s1) \<Rightarrow>
          (case run cs s1 of
             None \<Rightarrow> None
           | Some (rs, s') \<Rightarrow> Some (r # rs, s')))"

text \<open>
  The opcodes that the \<^verbatim>\<open>add_builtin\<close> calls of a history register under a key, and
  the callbacks that its \<^verbatim>\<open>add_callback\<close> calls register under it, oldest first. The
  most recent registration is the last element.
\<close>

fun builtin_ops :: "string \<Rightarrow> 32 word \<Rightarrow> ('o, 'v, 's) call list \<Rightarrow> 'o Op list" where
  "builtin_ops name n [] = []"
| "builtin_ops name n (Add_builtin name' n' opc # cs) =
     (if name' = name \<and> n' = n then opc # builtin_ops name n cs else builtin_ops name n cs)"
| "builtin_ops name n (c # cs) = builtin_ops name n cs"

fun callback_functions :: "string \<Rightarrow> 32 word \<Rightarrow> ('o, 'v, 's) call list \<Rightarrow> ('v, 's) T list" where
  "callback_functions name n [] = []"
| "callback_functions name n (Add_callback name' n' function # cs) =
     (if name' = name \<and> n' = n then function # callback_functions name n cs
      else callback_functions name n cs)"
| "callback_functions name n (c # cs) = callback_functions name n cs"

text \<open>A call that registers something under the key.\<close>

fun registers :: "string \<Rightarrow> 32 word \<Rightarrow> ('o, 'v, 's) call \<Rightarrow> bool" where
  "registers name n (Add_builtin name' n' opc) = (name' = name \<and> n' = n)"
| "registers name n (Add_callback name' n' function) = (name' = name \<and> n' = n)"
| "registers name n c = False"

text \<open>
  The element that \<^verbatim>\<open>get_or_new\<close> refers to for a key: the one \<^verbatim>\<open>get\<close> finds, or a
  new one with the arity of the key.
\<close>

definition entry_at ::
  "string \<Rightarrow> 32 word \<Rightarrow> ('o, 'v, 's) FunctionStorage \<Rightarrow> ('o, 'v, 's) FunctionData" where
  "entry_at name n s =
     (case get name n s of
        None \<Rightarrow> FunctionData_default\<lparr>num_args := n\<rparr>
      | Some d \<Rightarrow> d)"

text \<open>
  The vector after \<^verbatim>\<open>get_or_new\<close> and an assignment \<open>f\<close> to the element it returns.
\<close>

definition vec_assign ::
  "32 word \<Rightarrow> (('o, 'v, 's) FunctionData \<Rightarrow> ('o, 'v, 's) FunctionData) \<Rightarrow>
     ('o, 'v, 's) FunctionData list \<Rightarrow> ('o, 'v, 's) FunctionData list" where
  "vec_assign n f vec =
     (case first_with_args vec n of
        None \<Rightarrow> vec @ [f (FunctionData_default\<lparr>num_args := n\<rparr>)]
      | Some i \<Rightarrow> vec[i := f (vec ! i)])"

text \<open>The vector stored under a name, empty when the name is not in the map.\<close>

definition vec_at ::
  "('o, 'v, 's) FunctionStorage \<Rightarrow> string \<Rightarrow> ('o, 'v, 's) FunctionData list" where
  "vec_at s name = (case m_map s name of None \<Rightarrow> [] | Some v \<Rightarrow> v)"

text \<open>
  Two invariants of a registry: the arities within each vector are pairwise distinct,
  and in every stored container the tag describes the payload.
\<close>

definition unique_by_arity :: "('o, 'v, 's) FunctionStorage \<Rightarrow> bool" where
  "unique_by_arity s = (\<forall>name vec. m_map s name = Some vec \<longrightarrow> distinct (map num_args vec))"

definition stored_tags_describe_payloads :: "('o, 'v, 's) FunctionStorage \<Rightarrow> bool" where
  "stored_tags_describe_payloads s =
     (\<forall>name vec. m_map s name = Some vec \<longrightarrow>
        (\<forall>d \<in> set vec. tag_describes_payload (function' d)))"

section \<open>Containers as objects in memory\<close>

text \<open>
  Whether a container that \<^verbatim>\<open>find_callback\<close> returned is the container of the entry or
  another object is a question about objects, not about values. Here every
  \<^verbatim>\<open>CallbackContainer\<close> object lives at an address: the member \<^verbatim>\<open>function\<close> of an
  element of a vector, and every container returned to a caller. The
  \<^verbatim>\<open>std::function\<close> payload is held inside its container and is copied with it, as
  the library's copy constructor does. An element of a vector is written with the
  address of its member \<^verbatim>\<open>function\<close> in place of the member.
\<close>

type_synonym address = nat

record 'o FunctionData_at =
  num_args_at :: "32 word"
  op_at :: "'o Op"
  function_at :: address

text \<open>
  The memory: the live container objects, the number of addresses handed out so far
  (storage for a new object is the next address, which no live object occupies), and
  \<^verbatim>\<open>m_map\<close>.
\<close>

record ('o, 'v, 's) memory =
  objects :: "address \<rightharpoonup> ('v, 's) CallbackContainer"
  allocated :: address
  m_map_at :: "string \<rightharpoonup> 'o FunctionData_at list"

definition memory_default :: "('o, 'v, 's) memory" where
  "memory_default = \<lparr>objects = Map.empty, allocated = 0, m_map_at = Map.empty\<rparr>"

text \<open>A new container object with the given content: its address and the memory with it.\<close>

definition construct ::
  "('v, 's) CallbackContainer \<Rightarrow> ('o, 'v, 's) memory \<Rightarrow> address \<times> ('o, 'v, 's) memory" where
  "construct c h =
     (allocated h, h\<lparr>objects := (objects h)(allocated h \<mapsto> c), allocated := Suc (allocated h)\<rparr>)"

text \<open>
  What the source leaves to the library: whether \<^verbatim>\<open>emplace_back\<close> on a vector of a given
  size reallocates, and the content of a \<^verbatim>\<open>std::function\<close> that has been moved from.
\<close>

record ('v, 's) library =
  reallocates :: "nat \<Rightarrow> bool"
  moved_value :: "'v \<Rightarrow> 'v"
  moved_streaming :: "'s \<Rightarrow> 's"

text \<open>
  A reallocation move-constructs every element in new storage, by the implicit move
  constructor of \<^verbatim>\<open>FunctionData\<close> and so by the move constructor of the container, and
  then destroys the old elements and releases their storage.
\<close>

fun move_elements ::
  "('v, 's) library \<Rightarrow> 'o FunctionData_at list \<Rightarrow> ('o, 'v, 's) memory \<Rightarrow>
     ('o FunctionData_at list \<times> ('o, 'v, 's) memory) option" where
  "move_elements lib [] h = Some ([], h)"
| "move_elements lib (d # vec) h =
     (case objects h (function_at d) of
        None \<Rightarrow> None
      | Some other \<Rightarrow>
          (case CallbackContainer_move (moved_value lib) (moved_streaming lib) other of
             None \<Rightarrow> None
           | Some (c, other') \<Rightarrow>
               (case move_elements lib vec
                       (h\<lparr>objects := (objects h)(function_at d \<mapsto> other', allocated h \<mapsto> c),
                          allocated := Suc (allocated h)\<rparr>) of
                  None \<Rightarrow> None
                | Some (vec', h') \<Rightarrow> Some (d\<lparr>function_at := allocated h\<rparr> # vec', h'))))"

fun destroy_elements ::
  "'o FunctionData_at list \<Rightarrow> ('o, 'v, 's) memory \<Rightarrow> ('o, 'v, 's) memory option" where
  "destroy_elements [] h = Some h"
| "destroy_elements (d # vec) h =
     (case objects h (function_at d) of
        None \<Rightarrow> None
      | Some this \<Rightarrow>
          (case CallbackContainer_destroy this of
             None \<Rightarrow> None
           | Some left \<Rightarrow> destroy_elements vec (h\<lparr>objects := (objects h)(function_at d := None)\<rparr>)))"

definition reallocate ::
  "('v, 's) library \<Rightarrow> 'o FunctionData_at list \<Rightarrow> ('o, 'v, 's) memory \<Rightarrow>
     ('o FunctionData_at list \<times> ('o, 'v, 's) memory) option" where
  "reallocate lib vec h =
     (case move_elements lib vec h of
        None \<Rightarrow> None
      | Some (vec', h1) \<Rightarrow>
          (case destroy_elements vec h1 of
             None \<Rightarrow> None
           | Some h2 \<Rightarrow> Some (vec', h2)))"

fun first_with_args_at :: "'o FunctionData_at list \<Rightarrow> 32 word \<Rightarrow> nat option" where
  "first_with_args_at [] n = None"
| "first_with_args_at (i # vec) n =
     (if num_args_at i = n then Some 0 else map_option Suc (first_with_args_at vec n))"

text \<open>
  \<^verbatim>\<open>get_or_new\<close> on objects. \<^verbatim>\<open>vec.emplace_back()\<close> reallocates if the library says so
  and constructs the new element, with a default-constructed container as its member
  \<^verbatim>\<open>function\<close>, in new storage.
\<close>

definition get_or_new_at ::
  "('v, 's) library \<Rightarrow> string \<Rightarrow> 32 word \<Rightarrow> ('o, 'v, 's) memory \<Rightarrow>
     ((string \<times> nat) \<times> ('o, 'v, 's) memory) option" where
  "get_or_new_at lib name n h =
     (let vec = (case m_map_at h name of None \<Rightarrow> [] | Some v \<Rightarrow> v) in
      case first_with_args_at vec n of
        Some i \<Rightarrow> Some ((name, i), h\<lparr>m_map_at := (m_map_at h)(name \<mapsto> vec)\<rparr>)
      | None \<Rightarrow>
          (case (if reallocates lib (length vec) then reallocate lib vec h else Some (vec, h)) of
             None \<Rightarrow> None
           | Some (vec', h1) \<Rightarrow>
               (case construct CallbackContainer_default h1 of
                  (a, h2) \<Rightarrow>
                    Some ((name, length vec'),
                      h2\<lparr>m_map_at := (m_map_at h2)(name \<mapsto>
                         vec' @ [\<lparr>num_args_at = 0, op_at = Nop, function_at = a\<rparr>
                                   \<lparr>num_args_at := n\<rparr>])\<rparr>))))"

definition add_builtin_at ::
  "('v, 's) library \<Rightarrow> string \<Rightarrow> 32 word \<Rightarrow> 'o Op \<Rightarrow> ('o, 'v, 's) memory \<Rightarrow>
     ('o, 'v, 's) memory option" where
  "add_builtin_at lib name n opc h =
     (case get_or_new_at lib name n h of
        None \<Rightarrow> None
      | Some (data, h1) \<Rightarrow>
          (case m_map_at h1 (fst data) of
             None \<Rightarrow> None
           | Some vec \<Rightarrow>
               if snd data < length vec then
                 Some (h1\<lparr>m_map_at := (m_map_at h1)(fst data \<mapsto>
                    vec[snd data := (vec ! snd data)\<lparr>op_at := opc\<rparr>])\<rparr>)
               else None))"

text \<open>
  \<^verbatim>\<open>data.function = function\<close> assigns to the container object of the element, where it
  is.
\<close>

definition add_callback_at ::
  "('v, 's) library \<Rightarrow> string \<Rightarrow> 32 word \<Rightarrow> ('v, 's) T \<Rightarrow> ('o, 'v, 's) memory \<Rightarrow>
     ('o, 'v, 's) memory option" where
  "add_callback_at lib name n function h =
     (case get_or_new_at lib name n h of
        None \<Rightarrow> None
      | Some (data, h1) \<Rightarrow>
          (case m_map_at h1 (fst data) of
             None \<Rightarrow> None
           | Some vec \<Rightarrow>
               if snd data < length vec then
                 (case objects h1 (function_at (vec ! snd data)) of
                    None \<Rightarrow> None
                  | Some this \<Rightarrow>
                      (case CallbackContainer_assign_move this (CallbackContainer_from function) of
                         None \<Rightarrow> None
                       | Some c \<Rightarrow>
                           Some (h1\<lparr>objects := (objects h1)(function_at (vec ! snd data) \<mapsto> c)\<rparr>)))
               else None))"

definition get_at ::
  "string \<Rightarrow> 32 word \<Rightarrow> ('o, 'v, 's) memory \<Rightarrow> 'o FunctionData_at option" where
  "get_at name n h =
     (case m_map_at h name of
        None \<Rightarrow> None
      | Some vec \<Rightarrow> find (\<lambda>i. num_args_at i = n) vec)"

definition find_builtin_at ::
  "string \<Rightarrow> 32 word \<Rightarrow> ('o, 'v, 's) memory \<Rightarrow> 'o Op" where
  "find_builtin_at name n h =
     (case get_at name n h of
        Some d \<Rightarrow> op_at d
      | None \<Rightarrow> Nop)"

text \<open>
  \<^verbatim>\<open>find_callback\<close> has the return type \<^verbatim>\<open>CallbackContainer\<close>: the caller receives a
  new object, copy-constructed from the container of the entry by
  \<^verbatim>\<open>return ptr->function;\<close> or default-constructed by \<^verbatim>\<open>return {};\<close>. The result
  is the address of that object and the memory with it.
\<close>

definition find_callback_at ::
  "string \<Rightarrow> 32 word \<Rightarrow> ('o, 'v, 's) memory \<Rightarrow> (address \<times> ('o, 'v, 's) memory) option" where
  "find_callback_at name n h =
     (case get_at name n h of
        Some d \<Rightarrow>
          (case objects h (function_at d) of
             None \<Rightarrow> None
           | Some other \<Rightarrow>
               (case CallbackContainer_copy other of
                  None \<Rightarrow> None
                | Some c \<Rightarrow> Some (construct c h)))
      | None \<Rightarrow> Some (construct CallbackContainer_default h))"

text \<open>Calls and histories on objects; a returned container is given by its address.\<close>

datatype 'o returned_at =
    Returned_nothing
  | Returned_opcode "'o Op"
  | Returned_object address

fun exec_at ::
  "('v, 's) library \<Rightarrow> ('o, 'v, 's) call \<Rightarrow> ('o, 'v, 's) memory \<Rightarrow>
     ('o returned_at \<times> ('o, 'v, 's) memory) option" where
  "exec_at lib (Add_builtin name n opc) h =
     (case add_builtin_at lib name n opc h of
        None \<Rightarrow> None
      | Some h' \<Rightarrow> Some (Returned_nothing, h'))"
| "exec_at lib (Add_callback name n function) h =
     (case add_callback_at lib name n function h of
        None \<Rightarrow> None
      | Some h' \<Rightarrow> Some (Returned_nothing, h'))"
| "exec_at lib (Find_builtin name n) h = Some (Returned_opcode (find_builtin_at name n h), h)"
| "exec_at lib (Find_callback name n) h =
     (case find_callback_at name n h of
        None \<Rightarrow> None
      | Some (a, h') \<Rightarrow> Some (Returned_object a, h'))"

fun run_at ::
  "('v, 's) library \<Rightarrow> ('o, 'v, 's) call list \<Rightarrow> ('o, 'v, 's) memory \<Rightarrow>
     ('o returned_at list \<times> ('o, 'v, 's) memory) option" where
  "run_at lib [] h = Some ([], h)"
| "run_at lib (c # cs) h =
     (case exec_at lib c h of
        None \<Rightarrow> None
      | Some (r, h1) \<Rightarrow>
          (case run_at lib cs h1 of
             None \<Rightarrow> None
           | Some (rs, h') \<Rightarrow> Some (r # rs, h')))"

text \<open>
  The addresses of the containers of the registry, and two facts about the addresses
  of a memory: no live object and no container of the registry lies at an address that
  has not been handed out.
\<close>

definition owned :: "('o, 'v, 's) memory \<Rightarrow> address set" where
  "owned h = {a. \<exists>name vec d. m_map_at h name = Some vec \<and> d \<in> set vec \<and> function_at d = a}"

definition within_allocated :: "('o, 'v, 's) memory \<Rightarrow> bool" where
  "within_allocated h =
     ((\<forall>a c. objects h a = Some c \<longrightarrow> a < allocated h) \<and> (\<forall>a \<in> owned h. a < allocated h))"

text \<open>
  What a step from a memory \<open>h\<close> to a memory \<open>h'\<close> leaves alone: an object of \<open>h\<close>
  that is not a container of the registry keeps its content and does not become one.
\<close>

definition frame :: "('o, 'v, 's) memory \<Rightarrow> ('o, 'v, 's) memory \<Rightarrow> bool" where
  "frame h h' =
     (within_allocated h' \<and> allocated h \<le> allocated h' \<and>
      (\<forall>x. x < allocated h \<and> x \<notin> owned h \<longrightarrow> objects h' x = objects h x \<and> x \<notin> owned h'))"

text \<open>
  The containers of the registry as objects: every element of every vector has its own
  container, which is a live object whose tag describes its payload.
\<close>

definition registry_objects :: "('o, 'v, 's) memory \<Rightarrow> bool" where
  "registry_objects h =
     (within_allocated h \<and>
      (\<forall>name vec. m_map_at h name = Some vec \<longrightarrow>
         distinct (map function_at vec) \<and>
         (\<forall>d \<in> set vec. \<exists>c. objects h (function_at d) = Some c \<and> tag_describes_payload c)) \<and>
      (\<forall>name name' vec vec'.
         m_map_at h name = Some vec \<and> m_map_at h name' = Some vec' \<and> name \<noteq> name' \<longrightarrow>
         function_at ` set vec \<inter> function_at ` set vec' = {}))"

section \<open>Properties\<close>

subsection \<open>The loop over a vector\<close>

lemma first_with_args_Some:
  "first_with_args vec n = Some i \<Longrightarrow> i < length vec \<and> num_args (vec ! i) = n"
  by (induction vec arbitrary: i) (auto split: if_splits)

lemma first_with_args_None:
  "first_with_args vec n = None \<longleftrightarrow> n \<notin> num_args ` set vec"
  by (induction vec) auto

lemma find_first_with_args:
  "find (\<lambda>i. num_args i = n) vec = map_option (\<lambda>i. vec ! i) (first_with_args vec n)"
  by (induction vec) (auto simp: option.map_comp comp_def)

lemma first_with_args_list_update:
  "first_with_args vec n = Some i \<Longrightarrow> num_args d = n \<Longrightarrow>
   first_with_args (vec[i := d]) n' = first_with_args vec n'"
  by (induction vec arbitrary: i) (auto split: if_splits)

lemma first_with_args_append:
  "first_with_args (vec @ [d]) n' =
     (case first_with_args vec n' of
        Some i \<Rightarrow> Some i
      | None \<Rightarrow> if num_args d = n' then Some (length vec) else None)"
  by (induction vec) (auto split: option.splits)

lemma find_vec_assign:
  assumes "\<And>d. num_args (f d) = num_args d"
  shows "find (\<lambda>x. num_args x = n') (vec_assign n f vec) =
     (if n' = n then
        Some (f (case find (\<lambda>x. num_args x = n) vec of
                   None \<Rightarrow> FunctionData_default\<lparr>num_args := n\<rparr> | Some d \<Rightarrow> d))
      else find (\<lambda>x. num_args x = n') vec)"
proof (cases "first_with_args vec n")
  case None
  then show ?thesis using first_with_args_Some[of vec n']
    by (auto simp: vec_assign_def find_first_with_args first_with_args_append assms nth_append
        split: option.splits)
next
  case (Some i)
  have i: "i < length vec" "num_args (vec ! i) = n"
    using first_with_args_Some[OF Some] by simp_all
  have "first_with_args (vec[i := f (vec ! i)]) n' = first_with_args vec n'"
    using first_with_args_list_update[OF Some] assms i by simp
  then show ?thesis using Some i first_with_args_Some[of vec n']
    by (cases "first_with_args vec n'")
       (auto simp: vec_assign_def find_first_with_args nth_list_update)
qed

lemma map_num_args_vec_assign:
  assumes "\<And>d. num_args (f d) = num_args d"
  shows "map num_args (vec_assign n f vec) =
     (if n \<in> num_args ` set vec then map num_args vec else map num_args vec @ [n])"
proof (cases "first_with_args vec n")
  case None
  moreover have "n \<notin> num_args ` set vec" using None first_with_args_None[of vec n] by simp
  ultimately show ?thesis using assms
    by (simp add: vec_assign_def)
next
  case (Some i)
  have i: "i < length vec" "num_args (vec ! i) = n"
    using first_with_args_Some[OF Some] by simp_all
  have "n \<in> num_args ` set vec" using Some first_with_args_None[of vec n] by simp
  moreover have "map num_args (vec[i := f (vec ! i)]) = map num_args vec"
    using i assms by (simp add: map_update list_update_same_conv)
  ultimately show ?thesis using Some by (simp add: vec_assign_def)
qed

lemma vec_assign_twice:
  assumes "\<And>d. num_args (f d) = num_args d"
  shows "vec_assign n g (vec_assign n f vec) = vec_assign n (\<lambda>d. g (f d)) vec"
proof (cases "first_with_args vec n")
  case None
  then show ?thesis using assms
    by (simp add: vec_assign_def first_with_args_append)
next
  case (Some i)
  have i: "i < length vec" "num_args (vec ! i) = n"
    using first_with_args_Some[OF Some] by simp_all
  have "first_with_args (vec[i := f (vec ! i)]) n = Some i"
    using first_with_args_list_update[OF Some, of "f (vec ! i)" n] assms i Some by simp
  then show ?thesis using Some i by (simp add: vec_assign_def)
qed

subsection \<open>The registrations as assignments to a vector\<close>

lemma get_or_new_assign_through:
  assumes "\<And>d. upd d = Some (f d)"
  shows "(case get_or_new name n s of (data, s1) \<Rightarrow> assign_through data upd s1) =
     Some (s\<lparr>m_map := (m_map s)(name \<mapsto> vec_assign n f (vec_at s name))\<rparr>)"
proof (cases "first_with_args (vec_at s name) n")
  case None
  then show ?thesis using assms
    by (simp add: get_or_new_def assign_through_def vec_assign_def vec_at_def[symmetric] Let_def)
next
  case (Some i)
  then show ?thesis using assms first_with_args_Some[OF Some]
    by (simp add: get_or_new_def assign_through_def vec_assign_def vec_at_def[symmetric] Let_def)
qed

lemma add_builtin_eq:
  "add_builtin name n opc s =
     Some (s\<lparr>m_map := (m_map s)(name \<mapsto> vec_assign n (\<lambda>d. d\<lparr>op := opc\<rparr>) (vec_at s name))\<rparr>)"
  unfolding add_builtin_def by (rule get_or_new_assign_through) simp

lemma assign_move_from:
  "CallbackContainer_assign_move this (CallbackContainer_from fn) =
     Some (CallbackContainer_from fn)"
  by (cases fn)
     (simp_all add: CallbackContainer_assign_move_def CallbackContainer_value_def
        CallbackContainer_streaming_def)

lemma add_callback_eq:
  "add_callback name n fn s =
     Some (s\<lparr>m_map := (m_map s)(name \<mapsto>
        vec_assign n (\<lambda>d. d\<lparr>function' := CallbackContainer_from fn\<rparr>) (vec_at s name))\<rparr>)"
  unfolding add_callback_def by (rule get_or_new_assign_through) (simp add: assign_move_from)

lemma get_assigned:
  assumes "\<And>d. num_args (f d) = num_args d"
  shows "get name' n' (s\<lparr>m_map := (m_map s)(name \<mapsto> vec_assign n f (vec_at s name))\<rparr>) =
     (if name' = name \<and> n' = n then Some (f (entry_at name n s)) else get name' n' s)"
proof (cases "name' = name")
  case True
  have "get name k s = find (\<lambda>x. num_args x = k) (vec_at s name)" for k
    by (simp add: get_def vec_at_def split: option.splits)
  then show ?thesis using True find_vec_assign[of f n' n "vec_at s name"] assms
    by (simp add: get_def entry_at_def)
next
  case False
  then show ?thesis by (simp add: get_def)
qed

subsection \<open>A lookup after a registration\<close>

lemma get_add_builtin:
  "add_builtin name n opc s = Some s' \<Longrightarrow>
   get name' n' s' =
     (if name' = name \<and> n' = n then Some ((entry_at name n s)\<lparr>op := opc\<rparr>) else get name' n' s)"
  using get_assigned[of "\<lambda>d. d\<lparr>op := opc\<rparr>" name' n' s name n]
  by (simp add: add_builtin_eq)

lemma get_add_callback:
  "add_callback name n fn s = Some s' \<Longrightarrow>
   get name' n' s' =
     (if name' = name \<and> n' = n
      then Some ((entry_at name n s)\<lparr>function' := CallbackContainer_from fn\<rparr>)
      else get name' n' s)"
  using get_assigned[of "\<lambda>d. d\<lparr>function' := CallbackContainer_from fn\<rparr>" name' n' s name n]
  by (simp add: add_callback_eq)

lemma copy_default:
  "CallbackContainer_copy CallbackContainer_default = Some CallbackContainer_default"
  by (simp add: CallbackContainer_copy_def CallbackContainer_default_def)

lemma copy_from:
  "CallbackContainer_copy (CallbackContainer_from fn) = Some (CallbackContainer_from fn)"
  by (cases fn)
     (simp_all add: CallbackContainer_copy_def CallbackContainer_value_def
        CallbackContainer_streaming_def)

lemma find_builtin_add_builtin:
  "add_builtin name n opc s = Some s' \<Longrightarrow>
   find_builtin name' n' s' =
     (if name' = name \<and> n' = n then opc else find_builtin name' n' s)"
  by (simp add: find_builtin_def get_add_builtin)

lemma find_callback_add_builtin:
  "add_builtin name n opc s = Some s' \<Longrightarrow> find_callback name' n' s' = find_callback name' n' s"
  by (simp add: find_callback_def get_add_builtin entry_at_def FunctionData_default_def
        copy_default split: option.splits)

lemma find_builtin_add_callback:
  "add_callback name n fn s = Some s' \<Longrightarrow> find_builtin name' n' s' = find_builtin name' n' s"
  by (simp add: find_builtin_def get_add_callback entry_at_def FunctionData_default_def
        split: option.splits)

lemma find_callback_add_callback:
  "add_callback name n fn s = Some s' \<Longrightarrow>
   find_callback name' n' s' =
     (if name' = name \<and> n' = n then Some (CallbackContainer_from fn)
      else find_callback name' n' s)"
  by (simp add: find_callback_def get_add_callback copy_from)

subsection \<open>The invariants\<close>

lemma set_vec_assign:
  "d' \<in> set (vec_assign n f vec) \<Longrightarrow>
   d' \<in> set vec \<or> (\<exists>d. d' = f d)"
  by (auto simp: vec_assign_def split: option.splits dest: set_update_subset_insert[THEN subsetD])

lemma tag_describes_payload_default:
  "tag_describes_payload CallbackContainer_default"
  by (simp add: tag_describes_payload_def CallbackContainer_default_def)

lemma tag_describes_payload_from:
  "tag_describes_payload (CallbackContainer_from fn)"
  by (cases fn)
     (simp_all add: tag_describes_payload_def CallbackContainer_value_def
        CallbackContainer_streaming_def)

lemma stored_tags_default:
  "stored_tags_describe_payloads FunctionStorage_default"
  by (simp add: stored_tags_describe_payloads_def FunctionStorage_default_def)

lemma vec_at_tags:
  "stored_tags_describe_payloads s \<Longrightarrow> d \<in> set (vec_at s name) \<Longrightarrow>
   tag_describes_payload (function' d)"
  by (cases "m_map s name") (auto simp: stored_tags_describe_payloads_def vec_at_def)

lemma stored_tags_updated:
  assumes "stored_tags_describe_payloads s"
    and "\<And>d'. d' \<in> set vec' \<Longrightarrow> tag_describes_payload (function' d')"
  shows "stored_tags_describe_payloads (s\<lparr>m_map := (m_map s)(name \<mapsto> vec')\<rparr>)"
  unfolding stored_tags_describe_payloads_def
proof (intro allI impI ballI)
  fix name0 vec d
  assume m: "m_map (s\<lparr>m_map := (m_map s)(name \<mapsto> vec')\<rparr>) name0 = Some vec" and d: "d \<in> set vec"
  show "tag_describes_payload (function' d)"
  proof (cases "name0 = name")
    case True
    then show ?thesis using m d assms(2) by simp
  next
    case False
    then show ?thesis using m d assms(1) by (auto simp: stored_tags_describe_payloads_def)
  qed
qed

lemma stored_tags_add_builtin:
  assumes "stored_tags_describe_payloads s" and "add_builtin name n opc s = Some s'"
  shows "stored_tags_describe_payloads s'"
proof -
  have "tag_describes_payload (function' d')"
    if "d' \<in> set (vec_assign n (\<lambda>d. d\<lparr>op := opc\<rparr>) (vec_at s name))" for d'
  proof (cases "first_with_args (vec_at s name) n")
    case None
    then show ?thesis using that vec_at_tags[OF assms(1), of _ name]
      by (auto simp: vec_assign_def FunctionData_default_def tag_describes_payload_default)
  next
    case (Some i)
    have "i < length (vec_at s name)" using first_with_args_Some[OF Some] by simp
    then have "vec_at s name ! i \<in> set (vec_at s name)" by simp
    then show ?thesis using that Some vec_at_tags[OF assms(1), of _ name]
      by (auto simp: vec_assign_def dest!: set_update_subset_insert[THEN subsetD])
  qed
  then have "stored_tags_describe_payloads
      (s\<lparr>m_map := (m_map s)(name \<mapsto> vec_assign n (\<lambda>d. d\<lparr>op := opc\<rparr>) (vec_at s name))\<rparr>)"
    by (rule stored_tags_updated[OF assms(1)])
  then show ?thesis using assms(2) by (simp add: add_builtin_eq)
qed

lemma stored_tags_add_callback:
  assumes "stored_tags_describe_payloads s" and "add_callback name n fn s = Some s'"
  shows "stored_tags_describe_payloads s'"
proof -
  have "tag_describes_payload (function' d')"
    if "d' \<in> set (vec_assign n (\<lambda>d. d\<lparr>function' := CallbackContainer_from fn\<rparr>) (vec_at s name))" for d'
    using set_vec_assign[OF that] vec_at_tags[OF assms(1), of d' name]
    by (auto simp: tag_describes_payload_from)
  then have "stored_tags_describe_payloads
      (s\<lparr>m_map := (m_map s)(name \<mapsto>
         vec_assign n (\<lambda>d. d\<lparr>function' := CallbackContainer_from fn\<rparr>) (vec_at s name))\<rparr>)"
    by (rule stored_tags_updated[OF assms(1)])
  then show ?thesis using assms(2) by (simp add: add_callback_eq)
qed

lemma copy_described:
  "tag_describes_payload c \<Longrightarrow> CallbackContainer_copy c = Some c"
  by (cases c; cases "callback c")
     (auto simp: tag_describes_payload_def CallbackContainer_copy_def)

lemma get_in_vec:
  "get name n s = Some d \<Longrightarrow> d \<in> set (vec_at s name)"
  by (auto simp: get_def vec_at_def find_Some_iff split: option.splits)

lemma find_callback_described:
  assumes "stored_tags_describe_payloads s"
  shows "\<exists>c. find_callback name n s = Some c \<and> tag_describes_payload c"
proof (cases "get name n s")
  case None
  then show ?thesis by (simp add: find_callback_def tag_describes_payload_default)
next
  case (Some d)
  then have "tag_describes_payload (function' d)"
    using vec_at_tags[OF assms] get_in_vec by blast
  then show ?thesis using Some by (simp add: find_callback_def copy_described)
qed

subsection \<open>Histories\<close>

lemma exec_defined:
  assumes "stored_tags_describe_payloads s"
  shows "\<exists>r s'. exec c s = Some (r, s') \<and> stored_tags_describe_payloads s'"
proof (cases c)
  case (Add_builtin name n opc)
  then show ?thesis using stored_tags_add_builtin[OF assms, of name n opc]
    by (simp add: add_builtin_eq)
next
  case (Add_callback name n fn)
  then show ?thesis using stored_tags_add_callback[OF assms, of name n fn]
    by (simp add: add_callback_eq)
next
  case (Find_builtin name n)
  then show ?thesis using assms by simp
next
  case (Find_callback name n)
  then show ?thesis using assms find_callback_described[OF assms, of name n] by auto
qed

lemma run_defined:
  "stored_tags_describe_payloads s \<Longrightarrow>
   \<exists>rs s'. run cs s = Some (rs, s') \<and> stored_tags_describe_payloads s'"
proof (induction cs arbitrary: s)
  case Nil
  then show ?case by simp
next
  case (Cons c cs)
  obtain r s1 where 1: "exec c s = Some (r, s1)" "stored_tags_describe_payloads s1"
    using exec_defined[OF Cons.prems] by blast
  obtain rs s' where 2: "run cs s1 = Some (rs, s')" "stored_tags_describe_payloads s'"
    using Cons.IH[OF 1(2)] by blast
  show ?case using 1 2 by simp
qed

lemma run_Cons_Some:
  "run (c # cs) s = Some (rs, s') \<Longrightarrow>
   \<exists>r s1 rs'. exec c s = Some (r, s1) \<and> run cs s1 = Some (rs', s') \<and> rs = r # rs'"
  by (auto split: option.splits)

lemma find_builtin_exec:
  "exec c s = Some (r, s') \<Longrightarrow>
   find_builtin name n s' =
     (if builtin_ops name n [c] = [] then find_builtin name n s else last (builtin_ops name n [c]))"
  by (cases c)
     (auto simp: find_builtin_add_builtin find_builtin_add_callback split: option.splits)

lemma find_callback_exec:
  "exec c s = Some (r, s') \<Longrightarrow>
   find_callback name n s' =
     (if callback_functions name n [c] = [] then find_callback name n s
      else Some (CallbackContainer_from (last (callback_functions name n [c]))))"
  by (cases c)
     (auto simp: find_callback_add_builtin find_callback_add_callback split: option.splits)

lemma builtin_ops_Cons: "builtin_ops name n (c # cs) = builtin_ops name n [c] @ builtin_ops name n cs"
  by (cases c) auto

lemma callback_functions_Cons:
  "callback_functions name n (c # cs) = callback_functions name n [c] @ callback_functions name n cs"
  by (cases c) auto

lemma find_builtin_run:
  "run cs s = Some (rs, s') \<Longrightarrow>
   find_builtin name n s' =
     (if builtin_ops name n cs = [] then find_builtin name n s else last (builtin_ops name n cs))"
proof (induction cs arbitrary: s rs)
  case Nil
  then show ?case by simp
next
  case (Cons c cs)
  obtain r s1 rs' where 1: "exec c s = Some (r, s1)" "run cs s1 = Some (rs', s')"
    using run_Cons_Some[OF Cons.prems] by blast
  show ?case
    using Cons.IH[OF 1(2)] find_builtin_exec[OF 1(1), of name n]
    by (simp add: builtin_ops_Cons[of name n c cs] del: builtin_ops.simps)
qed

lemma find_callback_run:
  "run cs s = Some (rs, s') \<Longrightarrow>
   find_callback name n s' =
     (if callback_functions name n cs = [] then find_callback name n s
      else Some (CallbackContainer_from (last (callback_functions name n cs))))"
proof (induction cs arbitrary: s rs)
  case Nil
  then show ?case by simp
next
  case (Cons c cs)
  obtain r s1 rs' where 1: "exec c s = Some (r, s1)" "run cs s1 = Some (rs', s')"
    using run_Cons_Some[OF Cons.prems] by blast
  show ?case
    using Cons.IH[OF 1(2)] find_callback_exec[OF 1(1), of name n]
    by (simp add: callback_functions_Cons[of name n c cs] del: callback_functions.simps)
qed

lemma find_builtin_default: "find_builtin name n FunctionStorage_default = Nop"
  by (simp add: find_builtin_def get_def FunctionStorage_default_def)

lemma find_callback_default:
  "find_callback name n FunctionStorage_default = Some CallbackContainer_default"
  by (simp add: find_callback_def get_def FunctionStorage_default_def)

lemma from_holding: "CallbackContainer_from fn = holding fn"
  by (cases fn) (simp_all add: CallbackContainer_value_def CallbackContainer_streaming_def)

text \<open>
  C1. After any history of calls on a new registry, \<open>find_builtin\<close> for a key returns the
  opcode of the most recent \<open>add_builtin\<close> call for that key, and \<open>find_callback\<close>
  returns a container that holds the callback of the most recent \<open>add_callback\<close> call
  for that key: its tag is the shape of that callback and its payload is that callback.
\<close>

theorem find_reflects_most_recent_registration:
  "\<exists>rs s'. run cs FunctionStorage_default = Some (rs, s') \<and>
     (builtin_ops name n cs \<noteq> [] \<longrightarrow>
        find_builtin name n s' = last (builtin_ops name n cs)) \<and>
     (callback_functions name n cs \<noteq> [] \<longrightarrow>
        find_callback name n s' =
          Some (case last (callback_functions name n cs) of
                  ValueCallbackFunction f \<Rightarrow> \<lparr>type = VALUE, callback = Callback_value f\<rparr>
                | StreamingCallbackFunction g \<Rightarrow>
                    \<lparr>type = STREAMING, callback = Callback_streaming g\<rparr>))"
proof -
  obtain rs s' where r: "run cs FunctionStorage_default = Some (rs, s')"
    using run_defined[OF stored_tags_default] by blast
  show ?thesis
    using r find_builtin_run[OF r, of name n] find_callback_run[OF r, of name n]
    by (simp add: from_holding)
qed

theorem find_reflects_most_recent_registration_witness:
  "\<exists>rs s'. run [Add_builtin ''upper'' 1 (Op (1::nat)),
                 Add_callback ''upper'' 1 (ValueCallbackFunction (7::nat)),
                 Add_callback ''upper'' 1 (StreamingCallbackFunction (8::nat)),
                 Add_builtin ''upper'' 1 (Op 2),
                 Add_builtin ''upper'' 2 (Op 3),
                 Add_callback ''lower'' 1 (ValueCallbackFunction 9)] FunctionStorage_default = Some (rs, s') \<and>
     find_builtin ''upper'' 1 s' = Op 2 \<and>
     find_callback ''upper'' 1 s' = Some \<lparr>type = STREAMING, callback = Callback_streaming 8\<rparr> \<and>
     find_callback ''lower'' 1 s' = Some \<lparr>type = VALUE, callback = Callback_value 9\<rparr>"
proof -
  let ?cs = "[Add_builtin ''upper'' 1 (Op (1::nat)),
                 Add_callback ''upper'' 1 (ValueCallbackFunction (7::nat)),
                 Add_callback ''upper'' 1 (StreamingCallbackFunction (8::nat)),
                 Add_builtin ''upper'' 1 (Op 2),
                 Add_builtin ''upper'' 2 (Op 3),
                 Add_callback ''lower'' 1 (ValueCallbackFunction 9)] :: (nat, nat, nat) call list"
  from find_reflects_most_recent_registration[of ?cs "''upper''" 1]
  obtain rs s' where r: "run ?cs FunctionStorage_default = Some (rs, s')"
    and b: "builtin_ops ''upper'' 1 ?cs \<noteq> [] \<longrightarrow>
        find_builtin ''upper'' 1 s' = last (builtin_ops ''upper'' 1 ?cs)"
    and c: "callback_functions ''upper'' 1 ?cs \<noteq> [] \<longrightarrow>
        find_callback ''upper'' 1 s' = Some (holding (last (callback_functions ''upper'' 1 ?cs)))"
    by (elim conjE exE)
  from find_reflects_most_recent_registration[of ?cs "''lower''" 1]
  obtain rs2 s2 where r2: "run ?cs FunctionStorage_default = Some (rs2, s2)"
    and c2: "callback_functions ''lower'' 1 ?cs \<noteq> [] \<longrightarrow>
        find_callback ''lower'' 1 s2 = Some (holding (last (callback_functions ''lower'' 1 ?cs)))"
    by (elim conjE exE)
  from r r2 have e: "s2 = s'" by simp
  show ?thesis
  proof (intro exI conjI)
    show "run ?cs FunctionStorage_default = Some (rs, s')" by (rule r)
    show "find_builtin ''upper'' 1 s' = Op 2" using b by simp
    show "find_callback ''upper'' 1 s' = Some \<lparr>type = STREAMING, callback = Callback_streaming 8\<rparr>"
      using c by simp
    show "find_callback ''lower'' 1 s' = Some \<lparr>type = VALUE, callback = Callback_value 9\<rparr>"
      using c2 unfolding e by simp
  qed
qed

lemma no_registration:
  "\<forall>c \<in> set cs. \<not> registers name n c \<Longrightarrow>
   builtin_ops name n cs = [] \<and> callback_functions name n cs = []"
proof (induction cs)
  case Nil
  then show ?case by simp
next
  case (Cons c cs)
  then show ?case by (cases c) auto
qed

text \<open>
  C2. After a history on a new registry in which no call registers anything under a
  key, both lookups for that key are defined, \<open>find_builtin\<close> returns \<open>Nop\<close> and
  \<open>find_callback\<close> returns the default-constructed (empty) container.
\<close>

theorem find_unregistered_returns_sentinel:
  assumes "\<forall>c \<in> set cs. \<not> registers name n c"
  shows "\<exists>rs s'. run cs FunctionStorage_default = Some (rs, s') \<and>
     find_builtin name n s' = Nop \<and>
     find_callback name n s' = Some CallbackContainer_default \<and>
     exec (Find_builtin name n) s' = Some (Returned_op Nop, s') \<and>
     exec (Find_callback name n) s' = Some (Returned_callback CallbackContainer_default, s')"
proof -
  obtain rs s' where r: "run cs FunctionStorage_default = Some (rs, s')"
    using run_defined[OF stored_tags_default] by blast
  have "find_builtin name n s' = Nop"
    using find_builtin_run[OF r, of name n] no_registration[OF assms]
    by (simp add: find_builtin_default)
  moreover have "find_callback name n s' = Some CallbackContainer_default"
    using find_callback_run[OF r, of name n] no_registration[OF assms]
    by (simp add: find_callback_default)
  ultimately show ?thesis using r by simp
qed

theorem find_unregistered_returns_sentinel_witness:
  "\<exists>rs s'. run [Add_builtin ''upper'' 1 (Op (1::nat)),
                 Add_callback ''join'' 2 (StreamingCallbackFunction (8::nat)),
                 Find_callback ''upper'' 2,
                 Add_callback ''upper'' 3 (ValueCallbackFunction (7::nat))]
              FunctionStorage_default = Some (rs, s') \<and>
      find_builtin ''upper'' 2 s' = Nop \<and>
      find_callback ''upper'' 2 s' = Some CallbackContainer_default"
proof -
  have h: "\<forall>c \<in> set [Add_builtin ''upper'' 1 (Op (1::nat)),
                 Add_callback ''join'' 2 (StreamingCallbackFunction (8::nat)),
                 Find_callback ''upper'' 2,
                 Add_callback ''upper'' 3 (ValueCallbackFunction (7::nat))].
      \<not> registers ''upper'' 2 c"
    by simp
  from find_unregistered_returns_sentinel[OF h] obtain rs s' where
    "run [Add_builtin ''upper'' 1 (Op (1::nat)),
          Add_callback ''join'' 2 (StreamingCallbackFunction (8::nat)),
          Find_callback ''upper'' 2,
          Add_callback ''upper'' 3 (ValueCallbackFunction (7::nat))]
       FunctionStorage_default = Some (rs, s')"
    "find_builtin ''upper'' 2 s' = Nop"
    "find_callback ''upper'' 2 s' = Some CallbackContainer_default"
    by (elim conjE exE)
  then show ?thesis by (intro exI conjI)
qed

lemma get_entry_at: "get name n s = Some d \<Longrightarrow> entry_at name n s = d"
  by (simp add: entry_at_def)

text \<open>
  C3. In any registry, \<open>add_callback\<close> for a key leaves the opcode field of the entry of
  that key as it was (\<open>Nop\<close> in an entry it creates), and \<open>add_builtin\<close> leaves the
  callable field as it was (empty in an entry it creates); the lookup of the other
  kind returns what it returned before. After a history on a new registry with no
  \<open>add_callback\<close> call for a key, \<open>find_callback\<close> returns the empty container, and with
  no \<open>add_builtin\<close> call for a key, \<open>find_builtin\<close> returns \<open>Nop\<close>.
\<close>

theorem registration_leaves_other_field:
  "(\<exists>s1. add_callback name n fn s = Some s1 \<and>
       map_option op (get name n s1) = Some (op (entry_at name n s)) \<and>
       find_builtin name n s1 = find_builtin name n s) \<and>
   (\<exists>s2. add_builtin name n opc s = Some s2 \<and>
       map_option function' (get name n s2) = Some (function' (entry_at name n s)) \<and>
       find_callback name n s2 = find_callback name n s) \<and>
   (\<exists>rs s'. run cs FunctionStorage_default = Some (rs, s') \<and>
       (callback_functions name n cs = [] \<longrightarrow>
          find_callback name n s' = Some CallbackContainer_default) \<and>
       (builtin_ops name n cs = [] \<longrightarrow> find_builtin name n s' = Nop))"
proof (intro conjI)
  obtain s1 where 1: "add_callback name n fn s = Some s1"
    by (simp add: add_callback_eq)
  show "\<exists>s1. add_callback name n fn s = Some s1 \<and>
       map_option op (get name n s1) = Some (op (entry_at name n s)) \<and>
       find_builtin name n s1 = find_builtin name n s"
    using 1 get_add_callback[OF 1, of name n] find_builtin_add_callback[OF 1, of name n]
    by simp
  obtain s2 where 2: "add_builtin name n opc s = Some s2"
    by (simp add: add_builtin_eq)
  show "\<exists>s2. add_builtin name n opc s = Some s2 \<and>
       map_option function' (get name n s2) = Some (function' (entry_at name n s)) \<and>
       find_callback name n s2 = find_callback name n s"
    using 2 get_add_builtin[OF 2, of name n] find_callback_add_builtin[OF 2, of name n]
    by simp
  obtain rs s' where r: "run cs FunctionStorage_default = Some (rs, s')"
    using run_defined[OF stored_tags_default] by blast
  show "\<exists>rs s'. run cs FunctionStorage_default = Some (rs, s') \<and>
       (callback_functions name n cs = [] \<longrightarrow>
          find_callback name n s' = Some CallbackContainer_default) \<and>
       (builtin_ops name n cs = [] \<longrightarrow> find_builtin name n s' = Nop)"
    using r find_builtin_run[OF r, of name n] find_callback_run[OF r, of name n]
    by (simp add: find_builtin_default find_callback_default)
qed

theorem registration_leaves_other_field_witness:
  "(\<exists>s1. add_callback ''upper'' 1 (StreamingCallbackFunction (8::nat))
           \<lparr>m_map = [''upper'' \<mapsto> [\<lparr>num_args = 1, op = Op (1::nat),
                                      function' = CallbackContainer_value (7::nat)\<rparr>]]\<rparr> = Some s1 \<and>
       map_option op (get ''upper'' 1 s1) = Some (Op 1) \<and>
       find_builtin ''upper'' 1 s1 = Op 1) \<and>
   (\<exists>s2. add_builtin ''upper'' 1 (Op 2)
           \<lparr>m_map = [''upper'' \<mapsto> [\<lparr>num_args = 1, op = Op (1::nat),
                                      function' = CallbackContainer_value (7::nat)\<rparr>]]\<rparr> = Some s2 \<and>
       map_option function' (get ''upper'' 1 s2) = Some (CallbackContainer_value 7 :: (nat, nat) CallbackContainer) \<and>
       find_callback ''upper'' 1 s2 = Some (CallbackContainer_value 7)) \<and>
   (\<exists>rs s'. run [Add_builtin ''upper'' 1 (Op (1::nat)), Add_builtin ''upper'' 1 (Op 2)]
              (FunctionStorage_default :: (nat, nat, nat) FunctionStorage) = Some (rs, s') \<and>
       find_callback ''upper'' 1 s' = Some CallbackContainer_default) \<and>
   (\<exists>rs s'. run [Add_callback ''join'' 2 (StreamingCallbackFunction (8::nat))]
              (FunctionStorage_default :: (nat, nat, nat) FunctionStorage) = Some (rs, s') \<and>
       find_builtin ''join'' 2 s' = Nop)"
proof -
  let ?s0 = "\<lparr>m_map = [''upper'' \<mapsto> [\<lparr>num_args = 1, op = Op (1::nat),
                function' = CallbackContainer_value (7::nat) :: (nat, nat) CallbackContainer\<rparr>]]\<rparr>"
  have e: "entry_at ''upper'' 1 ?s0 =
      \<lparr>num_args = 1, op = Op 1, function' = CallbackContainer_value 7\<rparr>"
    by (simp add: entry_at_def get_def)
  have b: "find_builtin ''upper'' 1 ?s0 = Op 1"
    by (simp add: find_builtin_def get_def)
  have c: "find_callback ''upper'' 1 ?s0 = Some (CallbackContainer_value 7)"
    by (simp add: find_callback_def get_def CallbackContainer_copy_def CallbackContainer_value_def)
  have h1: "callback_functions ''upper'' 1
      [Add_builtin ''upper'' 1 (Op (1::nat)), Add_builtin ''upper'' 1 (Op 2) :: (nat, nat, nat) call] = []"
    by simp
  have h2: "builtin_ops ''join'' 2
      [Add_callback ''join'' 2 (StreamingCallbackFunction (8::nat)) :: (nat, nat, nat) call] = []"
    by simp
  note t1 = registration_leaves_other_field
       [of "''upper''" 1 "StreamingCallbackFunction (8::nat)" ?s0
           "Op 2" "[Add_builtin ''upper'' 1 (Op (1::nat)), Add_builtin ''upper'' 1 (Op 2)]"]
  note t2 = registration_leaves_other_field
       [of "''join''" 2 "StreamingCallbackFunction (8::nat)"
           "FunctionStorage_default :: (nat, nat, nat) FunctionStorage"
           "Op 2" "[Add_callback ''join'' 2 (StreamingCallbackFunction (8::nat))]"]
  from t1 obtain s1 where
    "add_callback ''upper'' 1 (StreamingCallbackFunction (8::nat)) ?s0 = Some s1"
    "map_option op (get ''upper'' 1 s1) = Some (op (entry_at ''upper'' 1 ?s0))"
    "find_builtin ''upper'' 1 s1 = find_builtin ''upper'' 1 ?s0"
    by (elim conjE exE)
  then have a: "\<exists>s1. add_callback ''upper'' 1 (StreamingCallbackFunction (8::nat)) ?s0 = Some s1 \<and>
       map_option op (get ''upper'' 1 s1) = Some (Op 1) \<and>
       find_builtin ''upper'' 1 s1 = Op 1"
    unfolding e b by simp
  from t1 obtain s2 where
    "add_builtin ''upper'' 1 (Op 2) ?s0 = Some s2"
    "map_option function' (get ''upper'' 1 s2) = Some (function' (entry_at ''upper'' 1 ?s0))"
    "find_callback ''upper'' 1 s2 = find_callback ''upper'' 1 ?s0"
    by (elim conjE exE)
  then have b': "\<exists>s2. add_builtin ''upper'' 1 (Op 2) ?s0 = Some s2 \<and>
       map_option function' (get ''upper'' 1 s2) = Some (CallbackContainer_value 7) \<and>
       find_callback ''upper'' 1 s2 = Some (CallbackContainer_value 7)"
    unfolding e c by simp
  from t1 obtain rs s' where
    "run [Add_builtin ''upper'' 1 (Op (1::nat)), Add_builtin ''upper'' 1 (Op 2)]
       (FunctionStorage_default :: (nat, nat, nat) FunctionStorage) = Some (rs, s')"
    "callback_functions ''upper'' 1
       [Add_builtin ''upper'' 1 (Op (1::nat)), Add_builtin ''upper'' 1 (Op 2) :: (nat, nat, nat) call] = [] \<longrightarrow>
     find_callback ''upper'' 1 s' = Some CallbackContainer_default"
    by (elim conjE exE)
  then have c': "\<exists>rs s'. run [Add_builtin ''upper'' 1 (Op (1::nat)), Add_builtin ''upper'' 1 (Op 2)]
              (FunctionStorage_default :: (nat, nat, nat) FunctionStorage) = Some (rs, s') \<and>
       find_callback ''upper'' 1 s' = Some CallbackContainer_default"
    using h1 by (intro exI conjI) (assumption, erule mp)
  from t2 obtain rs s' where
    "run [Add_callback ''join'' 2 (StreamingCallbackFunction (8::nat))]
       (FunctionStorage_default :: (nat, nat, nat) FunctionStorage) = Some (rs, s')"
    "builtin_ops ''join'' 2
       [Add_callback ''join'' 2 (StreamingCallbackFunction (8::nat)) :: (nat, nat, nat) call] = [] \<longrightarrow>
     find_builtin ''join'' 2 s' = Nop"
    by (elim conjE exE)
  then have d': "\<exists>rs s'. run [Add_callback ''join'' 2 (StreamingCallbackFunction (8::nat))]
              (FunctionStorage_default :: (nat, nat, nat) FunctionStorage) = Some (rs, s') \<and>
       find_builtin ''join'' 2 s' = Nop"
    using h2 by (intro exI conjI) (assumption, erule mp)
  show ?thesis using a b' c' d' by (intro conjI)
qed

subsection \<open>Uniqueness by arity\<close>

lemma distinct_vec_assign:
  assumes "\<And>d. num_args (f d) = num_args d" and "distinct (map num_args vec)"
  shows "distinct (map num_args (vec_assign n f vec))"
  using assms(2) by (simp add: map_num_args_vec_assign[of f n vec, OF assms(1)])

lemma unique_by_arity_updated:
  assumes "unique_by_arity s" and "distinct (map num_args vec')"
  shows "unique_by_arity (s\<lparr>m_map := (m_map s)(name \<mapsto> vec')\<rparr>)"
  unfolding unique_by_arity_def
proof (intro allI impI)
  fix name0 vec
  assume m: "m_map (s\<lparr>m_map := (m_map s)(name \<mapsto> vec')\<rparr>) name0 = Some vec"
  show "distinct (map num_args vec)"
  proof (cases "name0 = name")
    case True
    then show ?thesis using m assms(2) by simp
  next
    case False
    then show ?thesis using m assms(1) by (simp add: unique_by_arity_def)
  qed
qed

lemma distinct_vec_at: "unique_by_arity s \<Longrightarrow> distinct (map num_args (vec_at s name))"
  by (cases "m_map s name") (auto simp: unique_by_arity_def vec_at_def)

lemma unique_by_arity_exec:
  assumes "unique_by_arity s" and "exec c s = Some (r, s')"
  shows "unique_by_arity s'"
proof (cases c)
  case (Add_builtin name n opc)
  have "distinct (map num_args (vec_assign n (\<lambda>d. d\<lparr>op := opc\<rparr>) (vec_at s name)))"
    by (rule distinct_vec_assign) (simp_all add: distinct_vec_at[OF assms(1)])
  then show ?thesis
    using assms(2) Add_builtin unique_by_arity_updated[OF assms(1)]
    by (auto simp: add_builtin_eq)
next
  case (Add_callback name n fn)
  have "distinct (map num_args
      (vec_assign n (\<lambda>d. d\<lparr>function' := CallbackContainer_from fn\<rparr>) (vec_at s name)))"
    by (rule distinct_vec_assign) (simp_all add: distinct_vec_at[OF assms(1)])
  then show ?thesis
    using assms(2) Add_callback unique_by_arity_updated[OF assms(1)]
    by (auto simp: add_callback_eq)
next
  case (Find_builtin name n)
  then show ?thesis using assms by simp
next
  case (Find_callback name n)
  then show ?thesis using assms by (auto split: option.splits)
qed

lemma unique_by_arity_run:
  "unique_by_arity s \<Longrightarrow> run cs s = Some (rs, s') \<Longrightarrow> unique_by_arity s'"
proof (induction cs arbitrary: s rs)
  case Nil
  then show ?case by simp
next
  case (Cons c cs)
  obtain r s1 rs' where 1: "exec c s = Some (r, s1)" "run cs s1 = Some (rs', s')"
    using run_Cons_Some[OF Cons.prems(2)] by blast
  show ?case using Cons.IH[OF unique_by_arity_exec[OF Cons.prems(1) 1(1)] 1(2)] .
qed

lemma unique_by_arity_default: "unique_by_arity FunctionStorage_default"
  by (simp add: unique_by_arity_def FunctionStorage_default_def)

text \<open>
  C5. After any history of calls on a new registry, the arities of the entries stored
  under each name are pairwise distinct.
\<close>

theorem entries_unique_by_arity:
  "\<exists>rs s'. run cs FunctionStorage_default = Some (rs, s') \<and>
     (\<forall>name vec. m_map s' name = Some vec \<longrightarrow> distinct (map num_args vec))"
proof -
  obtain rs s' where r: "run cs FunctionStorage_default = Some (rs, s')"
    using run_defined[OF stored_tags_default] by blast
  have "unique_by_arity s'"
    using unique_by_arity_run[OF unique_by_arity_default r] .
  then show ?thesis using r by (auto simp: unique_by_arity_def)
qed

lemma run_example:
  "run [Add_builtin ''upper'' 1 (Op (1::nat)),
        Add_callback ''upper'' 2 (ValueCallbackFunction (7::nat)),
        Add_callback ''upper'' 1 (StreamingCallbackFunction (8::nat)),
        Add_builtin ''upper'' 2 (Op 2)] FunctionStorage_default =
   Some ([Void, Void, Void, Void],
     \<lparr>m_map = [''upper'' \<mapsto>
        [\<lparr>num_args = 1, op = Op 1, function' = CallbackContainer_streaming 8\<rparr>,
         \<lparr>num_args = 2, op = Op 2, function' = CallbackContainer_value 7\<rparr>]]\<rparr>)"
  by (simp add: add_builtin_eq add_callback_eq vec_assign_def vec_at_def
      FunctionStorage_default_def FunctionData_default_def)

theorem entries_unique_by_arity_witness:
  "\<exists>rs s' vec. run [Add_builtin ''upper'' 1 (Op (1::nat)),
        Add_callback ''upper'' 2 (ValueCallbackFunction (7::nat)),
        Add_callback ''upper'' 1 (StreamingCallbackFunction (8::nat)),
        Add_builtin ''upper'' 2 (Op 2)] FunctionStorage_default = Some (rs, s') \<and>
     m_map s' ''upper'' = Some vec \<and> map num_args vec = [1, 2] \<and> distinct (map num_args vec)"
proof -
  let ?cs = "[Add_builtin ''upper'' 1 (Op (1::nat)),
        Add_callback ''upper'' 2 (ValueCallbackFunction (7::nat)),
        Add_callback ''upper'' 1 (StreamingCallbackFunction (8::nat)),
        Add_builtin ''upper'' 2 (Op 2)]"
  let ?vec = "[\<lparr>num_args = 1, op = Op (1::nat), function' = CallbackContainer_streaming (8::nat)\<rparr>,
         \<lparr>num_args = 2, op = Op 2, function' = CallbackContainer_value (7::nat)\<rparr>]"
  from entries_unique_by_arity[of ?cs]
  obtain rs s' where
    r: "run ?cs FunctionStorage_default = Some (rs, s')"
    and u: "\<forall>name vec. m_map s' name = Some vec \<longrightarrow> distinct (map num_args vec)"
    by (elim conjE exE)
  from r have m: "m_map s' ''upper'' = Some ?vec"
    unfolding run_example by auto
  from u m have d: "distinct (map num_args ?vec)"
    by (elim allE impE)
  show ?thesis
  proof (intro exI conjI)
    show "run ?cs FunctionStorage_default = Some (rs, s')" by (rule r)
    show "m_map s' ''upper'' = Some ?vec" by (rule m)
    show "map num_args ?vec = [1, 2]" by simp
    show "distinct (map num_args ?vec)" by (rule d)
  qed
qed

subsection \<open>Registering twice\<close>

lemma vec_at_updated: "vec_at (s\<lparr>m_map := (m_map s)(name \<mapsto> vec)\<rparr>) name = vec"
  by (simp add: vec_at_def)

lemma add_builtin_twice:
  assumes "add_builtin name n opc s = Some s1"
  shows "add_builtin name n opc' s1 = add_builtin name n opc' s"
proof -
  have s1: "s1 = s\<lparr>m_map := (m_map s)(name \<mapsto> vec_assign n (\<lambda>d. d\<lparr>op := opc\<rparr>) (vec_at s name))\<rparr>"
    using assms by (simp add: add_builtin_eq)
  have "vec_assign n (\<lambda>d. d\<lparr>op := opc'\<rparr>) (vec_assign n (\<lambda>d. d\<lparr>op := opc\<rparr>) (vec_at s name)) =
        vec_assign n (\<lambda>d. d\<lparr>op := opc'\<rparr>) (vec_at s name)"
    by (simp add: vec_assign_twice)
  then show ?thesis
    unfolding add_builtin_eq s1 vec_at_updated by simp
qed

text \<open>
  C6. In any registry, \<open>add_builtin\<close> is defined, and a second call with the same
  arguments leaves the registry it produced as it is. A second call with another opcode
  for the same key is defined, \<open>find_builtin\<close> then returns the new opcode, and the
  registry is the one the second call alone would have produced.
\<close>

theorem add_builtin_idempotent:
  "\<exists>s1. add_builtin name n opc s = Some s1 \<and>
     add_builtin name n opc s1 = Some s1 \<and>
     (\<exists>s2. add_builtin name n opc' s1 = Some s2 \<and>
        find_builtin name n s2 = opc' \<and>
        add_builtin name n opc' s = Some s2)"
proof -
  obtain s1 where 1: "add_builtin name n opc s = Some s1"
    by (simp add: add_builtin_eq)
  obtain s2 where 2: "add_builtin name n opc' s1 = Some s2"
    by (simp add: add_builtin_eq)
  have "add_builtin name n opc s1 = Some s1"
    using add_builtin_twice[OF 1, of opc] 1 by simp
  moreover have "find_builtin name n s2 = opc'"
    using find_builtin_add_builtin[OF 2, of name n] by simp
  moreover have "add_builtin name n opc' s = Some s2"
    using add_builtin_twice[OF 1, of opc'] 2 by simp
  ultimately show ?thesis using 1 2 by simp
qed

theorem add_builtin_idempotent_witness:
  "\<exists>s1. add_builtin ''upper'' 1 (Op (1::nat))
          (FunctionStorage_default :: (nat, nat, nat) FunctionStorage) = Some s1 \<and>
     add_builtin ''upper'' 1 (Op 1) s1 = Some s1 \<and>
     (\<exists>s2. add_builtin ''upper'' 1 (Op 2) s1 = Some s2 \<and>
        find_builtin ''upper'' 1 s2 = Op 2 \<and>
        add_builtin ''upper'' 1 (Op 2) FunctionStorage_default = Some s2)"
  by (rule add_builtin_idempotent)

subsection \<open>Separation by arity\<close>

lemma builtin_ops_filter:
  "a1 \<noteq> a2 \<Longrightarrow>
   builtin_ops name a1 (filter (\<lambda>c. \<not> registers name a2 c) cs) = builtin_ops name a1 cs"
proof (induction cs)
  case Nil
  then show ?case by simp
next
  case (Cons c cs)
  then show ?case by (cases c) auto
qed

lemma callback_functions_filter:
  "a1 \<noteq> a2 \<Longrightarrow>
   callback_functions name a1 (filter (\<lambda>c. \<not> registers name a2 c) cs) =
     callback_functions name a1 cs"
proof (induction cs)
  case Nil
  then show ?case by simp
next
  case (Cons c cs)
  then show ?case by (cases c) auto
qed

text \<open>
  C7. For two different arities \<open>a1\<close> and \<open>a2\<close> of one name.
  Registrations under the two arities populate two entries: on a new registry,
  \<open>add_builtin\<close> under \<open>a1\<close> and \<open>add_callback\<close> under \<open>a2\<close> leave under the name the
  vector of an entry of arity \<open>a1\<close> with the opcode and no callback and an entry of arity
  \<open>a2\<close> with the callback and no opcode, and each lookup returns what was registered
  under its own arity and the sentinel otherwise. In any registry, after \<open>add_builtin\<close>
  under both arities \<open>find_builtin\<close> returns for each arity the opcode registered
  there, and after \<open>add_callback\<close> under both arities \<open>find_callback\<close> returns for each
  arity a container that holds the callback registered there. In any registry, a
  registration under \<open>a2\<close> leaves the entry of \<open>a1\<close> and both lookups under \<open>a1\<close> as they
  were. After any history on a new registry, the lookups under each of the two arities
  return the last opcode and a container holding the last callback registered under
  that arity (the sentinel when there is none), and the lookups under \<open>a1\<close> return what
  they return after the same history with every registration under \<open>a2\<close> left out.
\<close>

theorem arities_are_separate:
  fixes s :: "('o, 'v, 's) FunctionStorage" and cs :: "('o, 'v, 's) call list"
  assumes "a1 \<noteq> a2"
  shows "(\<exists>s1 s2. add_builtin name a1 op1 (FunctionStorage_default :: ('o, 'v, 's) FunctionStorage) = Some s1 \<and>
            add_callback name a2 fn2 s1 = Some s2 \<and>
            m_map s2 name =
              Some [\<lparr>num_args = a1, op = op1,
                      function' = \<lparr>type = Underscore, callback = Callback_inactive\<rparr>\<rparr>,
                    \<lparr>num_args = a2, op = Nop, function' = holding fn2\<rparr>] \<and>
            find_builtin name a1 s2 = op1 \<and>
            find_callback name a1 s2 = Some \<lparr>type = Underscore, callback = Callback_inactive\<rparr> \<and>
            find_builtin name a2 s2 = Nop \<and>
            find_callback name a2 s2 = Some (holding fn2)) \<and>
         (\<exists>s1 s2. add_builtin name a1 op1 s = Some s1 \<and>
            add_builtin name a2 op2 s1 = Some s2 \<and>
            find_builtin name a1 s2 = op1 \<and>
            find_builtin name a2 s2 = op2) \<and>
         (\<exists>s1 s2. add_callback name a1 fn1 s = Some s1 \<and>
            add_callback name a2 fn2 s1 = Some s2 \<and>
            find_callback name a1 s2 = Some (holding fn1) \<and>
            find_callback name a2 s2 = Some (holding fn2)) \<and>
         (\<exists>s'. add_builtin name a2 opc s = Some s' \<and>
            get name a1 s' = get name a1 s \<and>
            find_builtin name a1 s' = find_builtin name a1 s \<and>
            find_callback name a1 s' = find_callback name a1 s) \<and>
         (\<exists>s'. add_callback name a2 fn s = Some s' \<and>
            get name a1 s' = get name a1 s \<and>
            find_builtin name a1 s' = find_builtin name a1 s \<and>
            find_callback name a1 s' = find_callback name a1 s) \<and>
         (\<exists>rs s1 rs' s2.
            run cs FunctionStorage_default = Some (rs, s1) \<and>
            run (filter (\<lambda>c. \<not> registers name a2 c) cs) FunctionStorage_default = Some (rs', s2) \<and>
            find_builtin name a1 s1 = find_builtin name a1 s2 \<and>
            find_callback name a1 s1 = find_callback name a1 s2 \<and>
            find_builtin name a1 s1 =
              (if builtin_ops name a1 cs = [] then Nop else last (builtin_ops name a1 cs)) \<and>
            find_builtin name a2 s1 =
              (if builtin_ops name a2 cs = [] then Nop else last (builtin_ops name a2 cs)) \<and>
            find_callback name a1 s1 =
              Some (if callback_functions name a1 cs = []
                    then \<lparr>type = Underscore, callback = Callback_inactive\<rparr>
                    else holding (last (callback_functions name a1 cs))) \<and>
            find_callback name a2 s1 =
              Some (if callback_functions name a2 cs = []
                    then \<lparr>type = Underscore, callback = Callback_inactive\<rparr>
                    else holding (last (callback_functions name a2 cs))))"
proof (intro conjI)
  let ?new = "FunctionStorage_default :: ('o, 'v, 's) FunctionStorage"
  have ne: "a2 \<noteq> a1" using assms by simp
  show "\<exists>s1 s2. add_builtin name a1 op1 ?new = Some s1 \<and>
            add_callback name a2 fn2 s1 = Some s2 \<and>
            m_map s2 name =
              Some [\<lparr>num_args = a1, op = op1,
                      function' = \<lparr>type = Underscore, callback = Callback_inactive\<rparr>\<rparr>,
                    \<lparr>num_args = a2, op = Nop, function' = holding fn2\<rparr>] \<and>
            find_builtin name a1 s2 = op1 \<and>
            find_callback name a1 s2 = Some \<lparr>type = Underscore, callback = Callback_inactive\<rparr> \<and>
            find_builtin name a2 s2 = Nop \<and>
            find_callback name a2 s2 = Some (holding fn2)"
  proof -
    obtain s1 where 1: "add_builtin name a1 op1 ?new = Some s1"
      by (simp add: add_builtin_eq)
    obtain s2 where 2: "add_callback name a2 fn2 s1 = Some s2"
      by (simp add: add_callback_eq)
    have m1: "m_map s1 name = Some [\<lparr>num_args = a1, op = op1,
        function' = \<lparr>type = Underscore, callback = Callback_inactive\<rparr>\<rparr>]"
      using 1 by (auto simp: add_builtin_eq vec_assign_def vec_at_def FunctionStorage_default_def
          FunctionData_default_def CallbackContainer_default_def)
    have m2: "m_map s2 name =
              Some [\<lparr>num_args = a1, op = op1,
                      function' = \<lparr>type = Underscore, callback = Callback_inactive\<rparr>\<rparr>,
                    \<lparr>num_args = a2, op = Nop, function' = holding fn2\<rparr>]"
      using 2 m1 assms
      by (auto simp: add_callback_eq vec_assign_def vec_at_def FunctionData_default_def
          from_holding)
    have b1: "find_builtin name a1 s2 = op1"
      using find_builtin_add_callback[OF 2, of name a1] find_builtin_add_builtin[OF 1, of name a1]
      by simp
    have c1: "find_callback name a1 s2 = Some \<lparr>type = Underscore, callback = Callback_inactive\<rparr>"
      using find_callback_add_callback[OF 2, of name a1] find_callback_add_builtin[OF 1, of name a1]
        assms
      by (simp add: find_callback_default CallbackContainer_default_def)
    have b2: "find_builtin name a2 s2 = Nop"
      using find_builtin_add_callback[OF 2, of name a2] find_builtin_add_builtin[OF 1, of name a2]
        ne
      by (simp add: find_builtin_default)
    have c2: "find_callback name a2 s2 = Some (holding fn2)"
      using find_callback_add_callback[OF 2, of name a2] by (simp add: from_holding)
    show ?thesis using 1 2 m2 b1 c1 b2 c2 by (intro exI conjI)
  qed
  show "\<exists>s1 s2. add_builtin name a1 op1 s = Some s1 \<and>
            add_builtin name a2 op2 s1 = Some s2 \<and>
            find_builtin name a1 s2 = op1 \<and>
            find_builtin name a2 s2 = op2"
  proof -
    obtain s1 where 1: "add_builtin name a1 op1 s = Some s1"
      by (simp add: add_builtin_eq)
    obtain s2 where 2: "add_builtin name a2 op2 s1 = Some s2"
      by (simp add: add_builtin_eq)
    have b1: "find_builtin name a1 s2 = op1"
      using find_builtin_add_builtin[OF 2, of name a1] find_builtin_add_builtin[OF 1, of name a1]
        assms
      by simp
    have b2: "find_builtin name a2 s2 = op2"
      using find_builtin_add_builtin[OF 2, of name a2] by simp
    show ?thesis using 1 2 b1 b2 by (intro exI conjI)
  qed
  show "\<exists>s1 s2. add_callback name a1 fn1 s = Some s1 \<and>
            add_callback name a2 fn2 s1 = Some s2 \<and>
            find_callback name a1 s2 = Some (holding fn1) \<and>
            find_callback name a2 s2 = Some (holding fn2)"
  proof -
    obtain s1 where 1: "add_callback name a1 fn1 s = Some s1"
      by (simp add: add_callback_eq)
    obtain s2 where 2: "add_callback name a2 fn2 s1 = Some s2"
      by (simp add: add_callback_eq)
    have c1: "find_callback name a1 s2 = Some (holding fn1)"
      using find_callback_add_callback[OF 2, of name a1] find_callback_add_callback[OF 1, of name a1]
        assms
      by (simp add: from_holding)
    have c2: "find_callback name a2 s2 = Some (holding fn2)"
      using find_callback_add_callback[OF 2, of name a2] by (simp add: from_holding)
    show ?thesis using 1 2 c1 c2 by (intro exI conjI)
  qed
  obtain s' where 1: "add_builtin name a2 opc s = Some s'"
    by (simp add: add_builtin_eq)
  show "\<exists>s'. add_builtin name a2 opc s = Some s' \<and>
            get name a1 s' = get name a1 s \<and>
            find_builtin name a1 s' = find_builtin name a1 s \<and>
            find_callback name a1 s' = find_callback name a1 s"
    using 1 assms get_add_builtin[OF 1, of name a1] find_builtin_add_builtin[OF 1, of name a1]
      find_callback_add_builtin[OF 1, of name a1]
    by simp
  obtain s'' where 2: "add_callback name a2 fn s = Some s''"
    by (simp add: add_callback_eq)
  show "\<exists>s'. add_callback name a2 fn s = Some s' \<and>
            get name a1 s' = get name a1 s \<and>
            find_builtin name a1 s' = find_builtin name a1 s \<and>
            find_callback name a1 s' = find_callback name a1 s"
    using 2 assms get_add_callback[OF 2, of name a1] find_builtin_add_callback[OF 2, of name a1]
      find_callback_add_callback[OF 2, of name a1]
    by simp
  obtain rs s1 where r1: "run cs ?new = Some (rs, s1)"
    using run_defined[OF stored_tags_default] by blast
  obtain rs' s2 where
    r2: "run (filter (\<lambda>c. \<not> registers name a2 c) cs) ?new = Some (rs', s2)"
    using run_defined[OF stored_tags_default] by blast
  have e1: "find_builtin name a1 s1 = find_builtin name a1 s2"
    using find_builtin_run[OF r1, of name a1] find_builtin_run[OF r2, of name a1]
    by (simp add: builtin_ops_filter[OF assms])
  have e2: "find_callback name a1 s1 = find_callback name a1 s2"
    using find_callback_run[OF r1, of name a1] find_callback_run[OF r2, of name a1]
    by (simp add: callback_functions_filter[OF assms])
  have b: "find_builtin name a s1 =
      (if builtin_ops name a cs = [] then Nop else last (builtin_ops name a cs))" for a
    using find_builtin_run[OF r1, of name a] by (simp add: find_builtin_default)
  have c: "find_callback name a s1 =
      Some (if callback_functions name a cs = []
            then \<lparr>type = Underscore, callback = Callback_inactive\<rparr>
            else holding (last (callback_functions name a cs)))" for a
    using find_callback_run[OF r1, of name a]
    by (simp add: find_callback_default CallbackContainer_default_def from_holding)
  show "\<exists>rs s1 rs' s2.
            run cs ?new = Some (rs, s1) \<and>
            run (filter (\<lambda>c. \<not> registers name a2 c) cs) ?new = Some (rs', s2) \<and>
            find_builtin name a1 s1 = find_builtin name a1 s2 \<and>
            find_callback name a1 s1 = find_callback name a1 s2 \<and>
            find_builtin name a1 s1 =
              (if builtin_ops name a1 cs = [] then Nop else last (builtin_ops name a1 cs)) \<and>
            find_builtin name a2 s1 =
              (if builtin_ops name a2 cs = [] then Nop else last (builtin_ops name a2 cs)) \<and>
            find_callback name a1 s1 =
              Some (if callback_functions name a1 cs = []
                    then \<lparr>type = Underscore, callback = Callback_inactive\<rparr>
                    else holding (last (callback_functions name a1 cs))) \<and>
            find_callback name a2 s1 =
              Some (if callback_functions name a2 cs = []
                    then \<lparr>type = Underscore, callback = Callback_inactive\<rparr>
                    else holding (last (callback_functions name a2 cs)))"
    using r1 r2 e1 e2 b[of a1] b[of a2] c[of a1] c[of a2] by (intro exI conjI)
qed

theorem arities_are_separate_witness:
  "(\<exists>s1 s2. add_builtin ''upper'' 1 (Op (1::nat))
              (FunctionStorage_default :: (nat, nat, nat) FunctionStorage) = Some s1 \<and>
      add_callback ''upper'' 2 (StreamingCallbackFunction 8) s1 = Some s2 \<and>
      m_map s2 ''upper'' =
        Some [\<lparr>num_args = 1, op = Op 1,
                function' = \<lparr>type = Underscore, callback = Callback_inactive\<rparr>\<rparr>,
              \<lparr>num_args = 2, op = Nop,
                function' = \<lparr>type = STREAMING, callback = Callback_streaming 8\<rparr>\<rparr>] \<and>
      find_builtin ''upper'' 1 s2 = Op 1 \<and>
      find_callback ''upper'' 1 s2 = Some \<lparr>type = Underscore, callback = Callback_inactive\<rparr> \<and>
      find_builtin ''upper'' 2 s2 = Nop \<and>
      find_callback ''upper'' 2 s2 = Some \<lparr>type = STREAMING, callback = Callback_streaming 8\<rparr>) \<and>
   (\<exists>s1 s2. add_builtin ''upper'' 1 (Op (1::nat))
              \<lparr>m_map = [''upper'' \<mapsto> [\<lparr>num_args = 1, op = Op (4::nat),
                 function' = CallbackContainer_value (5::nat) :: (nat, nat) CallbackContainer\<rparr>]]\<rparr> = Some s1 \<and>
      add_builtin ''upper'' 2 (Op 2) s1 = Some s2 \<and>
      find_builtin ''upper'' 1 s2 = Op 1 \<and>
      find_builtin ''upper'' 2 s2 = Op 2) \<and>
   (\<exists>s1 s2. add_callback ''upper'' 1 (ValueCallbackFunction (7::nat))
              \<lparr>m_map = [''upper'' \<mapsto> [\<lparr>num_args = 1, op = Op (4::nat),
                 function' = CallbackContainer_value (5::nat) :: (nat, nat) CallbackContainer\<rparr>]]\<rparr> = Some s1 \<and>
      add_callback ''upper'' 2 (StreamingCallbackFunction 8) s1 = Some s2 \<and>
      find_callback ''upper'' 1 s2 = Some \<lparr>type = VALUE, callback = Callback_value 7\<rparr> \<and>
      find_callback ''upper'' 2 s2 = Some \<lparr>type = STREAMING, callback = Callback_streaming 8\<rparr>) \<and>
   (\<exists>s'. add_builtin ''upper'' 2 (Op 3)
            \<lparr>m_map = [''upper'' \<mapsto> [\<lparr>num_args = 1, op = Op (4::nat),
               function' = CallbackContainer_value (5::nat) :: (nat, nat) CallbackContainer\<rparr>]]\<rparr> = Some s' \<and>
      get ''upper'' 1 s' =
        Some \<lparr>num_args = 1, op = Op 4, function' = CallbackContainer_value 5\<rparr> \<and>
      find_builtin ''upper'' 1 s' = Op 4 \<and>
      find_callback ''upper'' 1 s' = Some (CallbackContainer_value 5)) \<and>
   (\<exists>s'. add_callback ''upper'' 2 (StreamingCallbackFunction 9)
            \<lparr>m_map = [''upper'' \<mapsto> [\<lparr>num_args = 1, op = Op (4::nat),
               function' = CallbackContainer_value (5::nat) :: (nat, nat) CallbackContainer\<rparr>]]\<rparr> = Some s' \<and>
      get ''upper'' 1 s' =
        Some \<lparr>num_args = 1, op = Op 4, function' = CallbackContainer_value 5\<rparr> \<and>
      find_builtin ''upper'' 1 s' = Op 4 \<and>
      find_callback ''upper'' 1 s' = Some (CallbackContainer_value 5)) \<and>
   (\<exists>rs s1 rs' s2.
      run [Add_builtin ''upper'' 1 (Op (1::nat)),
           Add_callback ''upper'' 2 (StreamingCallbackFunction (8::nat)),
           Add_callback ''upper'' 1 (ValueCallbackFunction (7::nat)),
           Add_builtin ''upper'' 2 (Op 2)] FunctionStorage_default = Some (rs, s1) \<and>
      run [Add_builtin ''upper'' 1 (Op (1::nat)),
           Add_callback ''upper'' 1 (ValueCallbackFunction (7::nat))]
        FunctionStorage_default = Some (rs', s2) \<and>
      find_builtin ''upper'' 1 s1 = find_builtin ''upper'' 1 s2 \<and>
      find_callback ''upper'' 1 s1 = find_callback ''upper'' 1 s2 \<and>
      find_builtin ''upper'' 1 s1 = Op 1 \<and>
      find_builtin ''upper'' 2 s1 = Op 2 \<and>
      find_callback ''upper'' 1 s1 = Some \<lparr>type = VALUE, callback = Callback_value 7\<rparr> \<and>
      find_callback ''upper'' 2 s1 = Some \<lparr>type = STREAMING, callback = Callback_streaming 8\<rparr>)"
proof -
  let ?s0 = "\<lparr>m_map = [''upper'' \<mapsto> [\<lparr>num_args = 1, op = Op (4::nat),
                function' = CallbackContainer_value (5::nat) :: (nat, nat) CallbackContainer\<rparr>]]\<rparr>"
  let ?cs = "[Add_builtin ''upper'' 1 (Op (1::nat)),
           Add_callback ''upper'' 2 (StreamingCallbackFunction (8::nat)),
           Add_callback ''upper'' 1 (ValueCallbackFunction (7::nat)),
           Add_builtin ''upper'' 2 (Op 2)] :: (nat, nat, nat) call list"
  have ne: "(1 :: 32 word) \<noteq> 2" by simp
  have g: "get ''upper'' 1 ?s0 =
      Some \<lparr>num_args = 1, op = Op 4, function' = CallbackContainer_value 5\<rparr>"
    by (simp add: get_def)
  have b: "find_builtin ''upper'' 1 ?s0 = Op 4"
    by (simp add: find_builtin_def get_def)
  have c: "find_callback ''upper'' 1 ?s0 = Some (CallbackContainer_value 5)"
    by (simp add: find_callback_def get_def CallbackContainer_copy_def CallbackContainer_value_def)
  have f: "filter (\<lambda>c. \<not> registers ''upper'' 2 c) ?cs =
      [Add_builtin ''upper'' 1 (Op (1::nat)),
       Add_callback ''upper'' 1 (ValueCallbackFunction (7::nat))]"
    by simp
  have l: "(if builtin_ops ''upper'' 1 ?cs = [] then Nop else last (builtin_ops ''upper'' 1 ?cs)) = Op 1"
    "(if builtin_ops ''upper'' 2 ?cs = [] then Nop else last (builtin_ops ''upper'' 2 ?cs)) = Op 2"
    "(if callback_functions ''upper'' 1 ?cs = []
        then \<lparr>type = Underscore, callback = Callback_inactive\<rparr>
        else holding (last (callback_functions ''upper'' 1 ?cs))) =
      \<lparr>type = VALUE, callback = Callback_value 7\<rparr>"
    "(if callback_functions ''upper'' 2 ?cs = []
        then \<lparr>type = Underscore, callback = Callback_inactive\<rparr>
        else holding (last (callback_functions ''upper'' 2 ?cs))) =
      \<lparr>type = STREAMING, callback = Callback_streaming 8\<rparr>"
    by simp_all
  have h: "holding (ValueCallbackFunction (7::nat) :: (nat, nat) T) =
        \<lparr>type = VALUE, callback = Callback_value 7\<rparr>"
     "holding (StreamingCallbackFunction (8::nat) :: (nat, nat) T) =
        \<lparr>type = STREAMING, callback = Callback_streaming 8\<rparr>"
    by simp_all
  show ?thesis
    using arities_are_separate[OF ne, of "''upper''" "Op 1" "StreamingCallbackFunction 8" ?s0
        "Op 2" "ValueCallbackFunction 7" "Op 3" "StreamingCallbackFunction 9" ?cs]
    unfolding g b c f l h .
qed

subsection \<open>The scenario of a streaming callback\<close>

text \<open>
  C8. After \<open>add_callback\<close> of a streaming callback under \<open>(''join'', 2)\<close> on a new
  registry, \<open>find_callback\<close> for that key returns a container whose boolean test is true
  and whose tag is \<open>STREAMING\<close>, and \<open>find_builtin\<close> for that key returns \<open>Nop\<close>. The tag
  comes from the constructor that the type of the callback selects. The boolean test of
  any container is true exactly when its tag is not \<open>_\<close>.
\<close>

theorem streaming_callback_scenario:
  fixes g :: 's and f :: 'v and c' :: "('v, 's) CallbackContainer"
  shows "(\<exists>s c. add_callback ''join'' 2 (StreamingCallbackFunction g)
            (FunctionStorage_default :: ('o, 'v, 's) FunctionStorage) = Some s \<and>
      find_callback ''join'' 2 s = Some c \<and>
      CallbackContainer_bool c \<and> type c = STREAMING \<and> callback c = Callback_streaming g \<and>
      find_builtin ''join'' 2 s = Nop) \<and>
   type (CallbackContainer_from (StreamingCallbackFunction g :: ('v, 's) T)) = STREAMING \<and>
   type (CallbackContainer_from (ValueCallbackFunction f :: ('v, 's) T)) = VALUE \<and>
   CallbackContainer_bool c' = (type c' \<noteq> Underscore)"
proof -
  let ?new = "FunctionStorage_default :: ('o, 'v, 's) FunctionStorage"
  obtain s where 1: "add_callback ''join'' 2 (StreamingCallbackFunction g) ?new = Some s"
    by (simp add: add_callback_eq)
  have 2: "find_callback ''join'' 2 s = Some (CallbackContainer_streaming g)"
    using find_callback_add_callback[OF 1, of "''join''" 2] by simp
  have 3: "find_builtin ''join'' 2 s = Nop"
    using find_builtin_add_callback[OF 1, of "''join''" 2] by (simp add: find_builtin_default)
  have "\<exists>s c. add_callback ''join'' 2 (StreamingCallbackFunction g) ?new = Some s \<and>
      find_callback ''join'' 2 s = Some c \<and>
      CallbackContainer_bool c \<and> type c = STREAMING \<and> callback c = Callback_streaming g \<and>
      find_builtin ''join'' 2 s = Nop"
  proof (intro exI conjI)
    show "add_callback ''join'' 2 (StreamingCallbackFunction g) ?new = Some s"
      by (rule 1)
    show "find_callback ''join'' 2 s = Some (CallbackContainer_streaming g)" by (rule 2)
    show "CallbackContainer_bool (CallbackContainer_streaming g :: ('v, 's) CallbackContainer)"
      by (simp add: CallbackContainer_bool_def CallbackContainer_streaming_def)
    show "type (CallbackContainer_streaming g :: ('v, 's) CallbackContainer) = STREAMING"
      by (simp add: CallbackContainer_streaming_def)
    show "callback (CallbackContainer_streaming g :: ('v, 's) CallbackContainer) = Callback_streaming g"
      by (simp add: CallbackContainer_streaming_def)
    show "find_builtin ''join'' 2 s = Nop" by (rule 3)
  qed
  then show ?thesis
    by (simp add: CallbackContainer_bool_def CallbackContainer_streaming_def
        CallbackContainer_value_def)
qed

theorem streaming_callback_scenario_witness:
  "(\<exists>s c. add_callback ''join'' 2 (StreamingCallbackFunction (8::nat))
            (FunctionStorage_default :: (nat, nat, nat) FunctionStorage) = Some s \<and>
      find_callback ''join'' 2 s = Some c \<and>
      CallbackContainer_bool c \<and> type c = STREAMING \<and> callback c = Callback_streaming 8 \<and>
      find_builtin ''join'' 2 s = Nop) \<and>
   CallbackContainer_bool (CallbackContainer_default :: (nat, nat) CallbackContainer) = False"
proof -
  note t = streaming_callback_scenario
     [where 'o = nat, of "8::nat" "7::nat" "CallbackContainer_default :: (nat, nat) CallbackContainer"]
  have "CallbackContainer_bool (CallbackContainer_default :: (nat, nat) CallbackContainer) = False"
    using t by (simp add: CallbackContainer_default_def)
  with t[THEN conjunct1] show ?thesis by (rule conjI)
qed

subsection \<open>Lookups and the registry\<close>

lemma run_append:
  "run (xs @ ys) s =
     (case run xs s of
        None \<Rightarrow> None
      | Some (rs, s1) \<Rightarrow>
          (case run ys s1 of
             None \<Rightarrow> None
           | Some (rs', s') \<Rightarrow> Some (rs @ rs', s')))"
  by (induction xs arbitrary: s) (auto split: option.splits)

text \<open>
  C10. In any registry, a call of \<open>find_builtin\<close> returns with the registry as it was,
  and a call of \<open>find_callback\<close> that is defined does too. For a key that \<open>get\<close> does not
  find, both lookups are defined and return the sentinels, and the registry is as it
  was, so no entry has been created. After any history on a new registry, both lookups
  are defined and the registry after them is the registry before them.
\<close>

theorem lookups_leave_registry_unchanged:
  "exec (Find_builtin name n) s = Some (Returned_op (find_builtin name n s), s) \<and>
   (exec (Find_callback name n) s = None \<or>
    (\<exists>c. exec (Find_callback name n) s = Some (Returned_callback c, s))) \<and>
   (get name n s = None \<longrightarrow>
      exec (Find_builtin name n) s = Some (Returned_op Nop, s) \<and>
      exec (Find_callback name n) s = Some (Returned_callback CallbackContainer_default, s)) \<and>
   (\<exists>rs s' r1 r2.
      run cs FunctionStorage_default = Some (rs, s') \<and>
      run (cs @ [Find_builtin name n, Find_callback name n]) FunctionStorage_default =
        Some (rs @ [r1, r2], s'))"
proof (intro conjI)
  show "exec (Find_builtin name n) s = Some (Returned_op (find_builtin name n s), s)"
    by simp
  show "exec (Find_callback name n) s = None \<or>
    (\<exists>c. exec (Find_callback name n) s = Some (Returned_callback c, s))"
    by (cases "find_callback name n s") simp_all
  show "get name n s = None \<longrightarrow>
      exec (Find_builtin name n) s = Some (Returned_op Nop, s) \<and>
      exec (Find_callback name n) s = Some (Returned_callback CallbackContainer_default, s)"
    by (simp add: find_builtin_def find_callback_def)
  obtain rs s' where r: "run cs FunctionStorage_default = Some (rs, s')"
    and t: "stored_tags_describe_payloads s'"
    using run_defined[OF stored_tags_default] by blast
  obtain c where c: "find_callback name n s' = Some c"
    using find_callback_described[OF t] by blast
  have "run (cs @ [Find_builtin name n, Find_callback name n]) FunctionStorage_default =
      Some (rs @ [Returned_op (find_builtin name n s'), Returned_callback c], s')"
    using r c by (simp add: run_append)
  then show "\<exists>rs s' r1 r2.
      run cs FunctionStorage_default = Some (rs, s') \<and>
      run (cs @ [Find_builtin name n, Find_callback name n]) FunctionStorage_default =
        Some (rs @ [r1, r2], s')"
    using r by blast
qed

theorem lookups_leave_registry_unchanged_witness:
  "exec (Find_builtin ''lower'' 1)
     \<lparr>m_map = [''upper'' \<mapsto> [\<lparr>num_args = 1, op = Op (1::nat),
        function' = CallbackContainer_value (7::nat) :: (nat, nat) CallbackContainer\<rparr>]]\<rparr> =
     Some (Returned_op Nop,
       \<lparr>m_map = [''upper'' \<mapsto> [\<lparr>num_args = 1, op = Op (1::nat),
          function' = CallbackContainer_value (7::nat)\<rparr>]]\<rparr>) \<and>
   exec (Find_callback ''lower'' 1)
     \<lparr>m_map = [''upper'' \<mapsto> [\<lparr>num_args = 1, op = Op (1::nat),
        function' = CallbackContainer_value (7::nat) :: (nat, nat) CallbackContainer\<rparr>]]\<rparr> =
     Some (Returned_callback CallbackContainer_default,
       \<lparr>m_map = [''upper'' \<mapsto> [\<lparr>num_args = 1, op = Op (1::nat),
          function' = CallbackContainer_value (7::nat)\<rparr>]]\<rparr>) \<and>
   (\<exists>rs s' r1 r2.
      run [Add_builtin ''upper'' 1 (Op (1::nat)),
           Add_callback ''upper'' 1 (ValueCallbackFunction (7::nat))]
        (FunctionStorage_default :: (nat, nat, nat) FunctionStorage) = Some (rs, s') \<and>
      run ([Add_builtin ''upper'' 1 (Op (1::nat)),
            Add_callback ''upper'' 1 (ValueCallbackFunction (7::nat))] @
           [Find_builtin ''lower'' 1, Find_callback ''lower'' 1])
        FunctionStorage_default = Some (rs @ [r1, r2], s'))"
proof -
  let ?s0 = "\<lparr>m_map = [''upper'' \<mapsto> [\<lparr>num_args = 1, op = Op (1::nat),
        function' = CallbackContainer_value (7::nat) :: (nat, nat) CallbackContainer\<rparr>]]\<rparr>"
  note t = lookups_leave_registry_unchanged
    [of "''lower''" 1 ?s0 "[Add_builtin ''upper'' 1 (Op (1::nat)),
           Add_callback ''upper'' 1 (ValueCallbackFunction (7::nat))]"]
  have g: "get ''lower'' 1 ?s0 = None"
    by (simp add: get_def)
  from t have i: "get ''lower'' 1 ?s0 = None \<longrightarrow>
      exec (Find_builtin ''lower'' 1) ?s0 = Some (Returned_op Nop, ?s0) \<and>
      exec (Find_callback ''lower'' 1) ?s0 = Some (Returned_callback CallbackContainer_default, ?s0)"
    by (elim conjE)
  from i g have a: "exec (Find_builtin ''lower'' 1) ?s0 = Some (Returned_op Nop, ?s0) \<and>
      exec (Find_callback ''lower'' 1) ?s0 = Some (Returned_callback CallbackContainer_default, ?s0)"
    by (rule mp)
  from t have b: "\<exists>rs s' r1 r2.
      run [Add_builtin ''upper'' 1 (Op (1::nat)),
           Add_callback ''upper'' 1 (ValueCallbackFunction (7::nat))]
        (FunctionStorage_default :: (nat, nat, nat) FunctionStorage) = Some (rs, s') \<and>
      run ([Add_builtin ''upper'' 1 (Op (1::nat)),
            Add_callback ''upper'' 1 (ValueCallbackFunction (7::nat))] @
           [Find_builtin ''lower'' 1, Find_callback ''lower'' 1])
        FunctionStorage_default = Some (rs @ [r1, r2], s')"
    by (elim conjE)
  from a b show ?thesis by (intro conjI) (erule conjunct1, erule conjunct2)
qed

subsection \<open>A populated copy\<close>

lemma copy_populated:
  assumes "CallbackContainer_copy x = Some c" and "CallbackContainer_bool c"
  shows "c = x"
proof (cases x)
  case (fields t p)
  then show ?thesis using assms
    by (cases t; cases p)
       (auto simp: CallbackContainer_copy_def CallbackContainer_bool_def)
qed

subsection \<open>The tag and the payload\<close>

lemma move_described:
  assumes "tag_describes_payload x"
  shows "\<exists>c x'. CallbackContainer_move mv ms x = Some (c, x') \<and>
     tag_describes_payload c \<and> tag_describes_payload x' \<and>
     type c = type x \<and> callback c = callback x"
proof (cases x)
  case (fields t p)
  then show ?thesis using assms
    by (cases t; cases p)
       (auto simp: CallbackContainer_move_def tag_describes_payload_def)
qed

lemma assign_move_populated:
  assumes "tag_describes_payload other" and "CallbackContainer_bool other"
  shows "CallbackContainer_assign_move this other = Some other"
proof (cases other)
  case (fields t p)
  then show ?thesis using assms
    by (cases t; cases p)
       (auto simp: CallbackContainer_assign_move_def tag_describes_payload_def
          CallbackContainer_bool_def)
qed

lemma assign_copy_populated:
  assumes "tag_describes_payload other" and "CallbackContainer_bool other"
  shows "CallbackContainer_assign_copy this other = Some other"
  using assms
  by (simp add: CallbackContainer_assign_copy_def copy_described assign_move_populated)

lemma assign_move_empty:
  "CallbackContainer_assign_move this CallbackContainer_default = Some (this\<lparr>type := Underscore\<rparr>)"
  by (simp add: CallbackContainer_assign_move_def CallbackContainer_default_def)

lemma destroy_described:
  "tag_describes_payload x \<Longrightarrow> CallbackContainer_destroy x = Some Callback_inactive"
  by (cases x; cases "callback x"; cases "type x")
     (auto simp: CallbackContainer_destroy_def tag_describes_payload_def)

lemma registry_tags_describe_payloads:
  "\<exists>rs s'. run cs FunctionStorage_default = Some (rs, s') \<and>
     stored_tags_describe_payloads s' \<and>
     (\<exists>c. find_callback name n s' = Some c \<and> tag_describes_payload c)"
proof -
  obtain rs s' where r: "run cs FunctionStorage_default = Some (rs, s')"
    and t: "stored_tags_describe_payloads s'"
    using run_defined[OF stored_tags_default] by blast
  show ?thesis using r t find_callback_described[OF t, of name n] by simp
qed

text \<open>
  C4. The tag of a container produced by an assignment does not always describe its
  payload. When an empty container is assigned to a container that holds the value
  callback \<open>7\<close>, by the move assignment or by the copy assignment, the result has the tag
  \<open>_\<close> while the value payload is still constructed in its storage; its destructor then
  destroys nothing and leaves the payload behind. The constructors, the copy, the move
  and an assignment from a populated container keep tag and payload together, and so
  do the containers of a registry as long as every \<^verbatim>\<open>add_callback\<close> passes a callback
  of one of the two shapes, as the lemmas above show. An \<^verbatim>\<open>add_callback\<close> whose argument
  is an empty \<^verbatim>\<open>CallbackContainer\<close> is this copy assignment to the container of the
  entry.
\<close>

theorem assign_empty_over_populated:
  "CallbackContainer_assign_move
       (CallbackContainer_value (7::nat) :: (nat, nat) CallbackContainer)
       CallbackContainer_default =
     Some \<lparr>type = Underscore, callback = Callback_value 7\<rparr> \<and>
   CallbackContainer_assign_copy
       (CallbackContainer_value (7::nat) :: (nat, nat) CallbackContainer)
       CallbackContainer_default =
     Some \<lparr>type = Underscore, callback = Callback_value 7\<rparr> \<and>
   \<not> tag_describes_payload
       (\<lparr>type = Underscore, callback = Callback_value (7::nat)\<rparr> :: (nat, nat) CallbackContainer) \<and>
   CallbackContainer_destroy
       (\<lparr>type = Underscore, callback = Callback_value (7::nat)\<rparr> :: (nat, nat) CallbackContainer) =
     Some (Callback_value 7)"
  by (simp add: CallbackContainer_assign_move_def CallbackContainer_assign_copy_def
      CallbackContainer_copy_def CallbackContainer_default_def CallbackContainer_value_def
      tag_describes_payload_def CallbackContainer_destroy_def)

subsection \<open>Objects that a call leaves alone\<close>

lemma frame_trans:
  assumes "frame h h1" and "frame h1 h2"
  shows "frame h h2"
  unfolding frame_def
proof (intro conjI allI impI)
  show "within_allocated h2" using assms(2) by (simp add: frame_def)
  show "allocated h \<le> allocated h2" using assms by (simp add: frame_def)
  fix x assume x: "x < allocated h \<and> x \<notin> owned h"
  then have 1: "objects h1 x = objects h x" "x \<notin> owned h1" "x < allocated h1"
    using assms(1) by (auto simp: frame_def)
  then have 2: "objects h2 x = objects h1 x" "x \<notin> owned h2"
    using assms(2) by (auto simp: frame_def)
  show "objects h2 x = objects h x" using 1 2 by simp
  show "x \<notin> owned h2" using 2 by simp
qed

lemma move_elements_frame:
  assumes "move_elements lib vec h = Some (vec', h')"
    and "\<forall>x c. objects h x = Some c \<longrightarrow> x < allocated h"
  shows "allocated h \<le> allocated h' \<and> m_map_at h' = m_map_at h \<and>
     (\<forall>x c. objects h' x = Some c \<longrightarrow> x < allocated h') \<and>
     (\<forall>x. x < allocated h \<and> x \<notin> function_at ` set vec \<longrightarrow> objects h' x = objects h x) \<and>
     (\<forall>d \<in> set vec'. allocated h \<le> function_at d \<and> function_at d < allocated h')"
  using assms
proof (induction vec arbitrary: h vec' h')
  case Nil
  then show ?case by simp
next
  case (Cons d vec)
  from Cons.prems(1) obtain other c other' vec1 where
    o: "objects h (function_at d) = Some other"
    and m: "CallbackContainer_move (moved_value lib) (moved_streaming lib) other = Some (c, other')"
    and r: "move_elements lib vec
        (h\<lparr>objects := (objects h)(function_at d \<mapsto> other', allocated h \<mapsto> c),
           allocated := Suc (allocated h)\<rparr>) = Some (vec1, h')"
    and v: "vec' = d\<lparr>function_at := allocated h\<rparr> # vec1"
    by (auto split: option.splits)
  let ?h1 = "h\<lparr>objects := (objects h)(function_at d \<mapsto> other', allocated h \<mapsto> c),
           allocated := Suc (allocated h)\<rparr>"
  have d: "function_at d < allocated h" using o Cons.prems(2) by blast
  have b1: "\<forall>x c. objects ?h1 x = Some c \<longrightarrow> x < allocated ?h1"
    using Cons.prems(2) d by (auto split: if_splits)
  note ih = Cons.IH[OF r b1]
  show ?case
  proof (intro conjI allI impI ballI)
    show "allocated h \<le> allocated h'" using ih by simp
    show "m_map_at h' = m_map_at h" using ih by simp
    show "x < allocated h'" if "objects h' x = Some c'" for x c' using ih that by blast
    show "objects h' x = objects h x" if "x < allocated h \<and> x \<notin> function_at ` set (d # vec)" for x
    proof -
      have "objects h' x = objects ?h1 x" using ih that by simp
      then show ?thesis using that by simp
    qed
    show "allocated h \<le> function_at e" if "e \<in> set vec'" for e
      using that v ih by auto
    show "function_at e < allocated h'" if "e \<in> set vec'" for e
      using that v ih by auto
  qed
qed

lemma destroy_elements_frame:
  "destroy_elements vec h = Some h' \<Longrightarrow>
   allocated h' = allocated h \<and> m_map_at h' = m_map_at h \<and>
   (\<forall>x c. objects h' x = Some c \<longrightarrow> objects h x = Some c) \<and>
   (\<forall>x. x \<notin> function_at ` set vec \<longrightarrow> objects h' x = objects h x)"
proof (induction vec arbitrary: h)
  case Nil
  then show ?case by simp
next
  case (Cons d vec)
  from Cons.prems obtain r where
    r: "destroy_elements vec (h\<lparr>objects := (objects h)(function_at d := None)\<rparr>) = Some h'"
    by (auto split: option.splits)
  note ih = Cons.IH[OF r]
  show ?case
  proof (intro conjI allI impI)
    show "allocated h' = allocated h" using ih by simp
    show "m_map_at h' = m_map_at h" using ih by simp
    show "objects h x = Some c" if "objects h' x = Some c" for x c
    proof -
      have "objects (h\<lparr>objects := (objects h)(function_at d := None)\<rparr>) x = Some c"
        using ih that by blast
      then show ?thesis by (simp split: if_splits)
    qed
    show "objects h' x = objects h x" if "x \<notin> function_at ` set (d # vec)" for x
      using ih that by auto
  qed
qed

lemma reallocate_frame:
  assumes "reallocate lib vec h = Some (vec', h')"
    and "\<forall>x c. objects h x = Some c \<longrightarrow> x < allocated h"
  shows "allocated h \<le> allocated h' \<and> m_map_at h' = m_map_at h \<and>
     (\<forall>x c. objects h' x = Some c \<longrightarrow> x < allocated h') \<and>
     (\<forall>x. x < allocated h \<and> x \<notin> function_at ` set vec \<longrightarrow> objects h' x = objects h x) \<and>
     (\<forall>d \<in> set vec'. allocated h \<le> function_at d \<and> function_at d < allocated h')"
proof -
  from assms(1) obtain h1 where
    m: "move_elements lib vec h = Some (vec', h1)" and d: "destroy_elements vec h1 = Some h'"
    by (auto simp: reallocate_def split: option.splits)
  note mf = move_elements_frame[OF m assms(2)]
  note df = destroy_elements_frame[OF d]
  have a1: "allocated h \<le> allocated h1" and m1: "m_map_at h1 = m_map_at h"
    and b1: "\<And>x c. objects h1 x = Some c \<Longrightarrow> x < allocated h1"
    and o1: "\<And>x. x < allocated h \<Longrightarrow> x \<notin> function_at ` set vec \<Longrightarrow> objects h1 x = objects h x"
    and v1: "\<And>e. e \<in> set vec' \<Longrightarrow> allocated h \<le> function_at e \<and> function_at e < allocated h1"
    using mf by blast+
  have a2: "allocated h' = allocated h1" and m2: "m_map_at h' = m_map_at h1"
    and b2: "\<And>x c. objects h' x = Some c \<Longrightarrow> objects h1 x = Some c"
    and o2: "\<And>x. x \<notin> function_at ` set vec \<Longrightarrow> objects h' x = objects h1 x"
    using df by blast+
  show ?thesis
  proof (intro conjI allI impI ballI)
    show "allocated h \<le> allocated h'" using a1 a2 by simp
    show "m_map_at h' = m_map_at h" using m1 m2 by simp
    show "x < allocated h'" if "objects h' x = Some c" for x c
      using b1[OF b2[OF that]] a2 by simp
    show "objects h' x = objects h x" if "x < allocated h \<and> x \<notin> function_at ` set vec" for x
      using o1[of x] o2[of x] that by simp
    show "allocated h \<le> function_at e" if "e \<in> set vec'" for e using v1[OF that] by simp
    show "function_at e < allocated h'" if "e \<in> set vec'" for e using v1[OF that] a2 by simp
  qed
qed

lemma owned_iff:
  "x \<in> owned h \<longleftrightarrow> (\<exists>name vec. m_map_at h name = Some vec \<and> x \<in> function_at ` set vec)"
  unfolding owned_def by blast

lemma frame_intro:
  assumes w: "within_allocated h"
    and a: "allocated h \<le> allocated h'"
    and b: "\<And>x c. objects h' x = Some c \<Longrightarrow> x < allocated h'"
    and o: "\<And>x. x \<in> owned h' \<Longrightarrow> x \<in> owned h \<or> (allocated h \<le> x \<and> x < allocated h')"
    and f: "\<And>x. x < allocated h \<Longrightarrow> x \<notin> owned h \<Longrightarrow> objects h' x = objects h x"
  shows "frame h h'"
  unfolding frame_def
proof (intro conjI allI impI)
  have wo: "\<And>x. x \<in> owned h \<Longrightarrow> x < allocated h"
    using w by (simp add: within_allocated_def)
  show "within_allocated h'"
    unfolding within_allocated_def
  proof (intro conjI allI impI ballI)
    show "x < allocated h'" if "objects h' x = Some c" for x c using b[OF that] .
    show "x < allocated h'" if "x \<in> owned h'" for x
      using o[OF that] wo[of x] a by auto
  qed
  show "allocated h \<le> allocated h'" by (rule a)
  fix x assume x: "x < allocated h \<and> x \<notin> owned h"
  show "objects h' x = objects h x" using f x by simp
  show "x \<notin> owned h'" using o[of x] x by auto
qed

lemma frame_refl: "within_allocated h \<Longrightarrow> frame h h"
  by (simp add: frame_def)

lemma first_with_args_at_Some:
  "first_with_args_at vec n = Some i \<Longrightarrow> i < length vec \<and> num_args_at (vec ! i) = n"
  by (induction vec arbitrary: i) (auto split: if_splits)

lemma find_first_with_args_at:
  "find (\<lambda>i. num_args_at i = n) vec = map_option (\<lambda>i. vec ! i) (first_with_args_at vec n)"
  by (induction vec) (auto simp: option.map_comp comp_def)

text \<open>The memory after \<open>get_or_new_at\<close>, case by case.\<close>

lemma get_or_new_at_found:
  assumes "m_map_at h name = Some vec" and "first_with_args_at vec n = Some i"
  shows "get_or_new_at lib name n h = Some ((name, i), h)"
proof -
  have "(m_map_at h)(name \<mapsto> vec) = m_map_at h"
    using assms(1) by (rule map_upd_triv)
  then show ?thesis using assms by (simp add: get_or_new_at_def)
qed

lemma get_or_new_at_cases:
  assumes "get_or_new_at lib name n h = Some (r, h')"
  obtains (found) vec i where "m_map_at h name = Some vec" "first_with_args_at vec n = Some i"
      "r = (name, i)" "h' = h"
  | (new) vec vec' h1 where "vec = (case m_map_at h name of None \<Rightarrow> [] | Some v \<Rightarrow> v)"
      "first_with_args_at vec n = None"
      "(reallocates lib (length vec) \<and> reallocate lib vec h = Some (vec', h1)) \<or> (vec' = vec \<and> h1 = h)"
      "r = (name, length vec')"
      "h' = h1\<lparr>objects := (objects h1)(allocated h1 \<mapsto> CallbackContainer_default),
               allocated := Suc (allocated h1),
               m_map_at := (m_map_at h1)(name \<mapsto>
                 vec' @ [\<lparr>num_args_at = n, op_at = Nop, function_at = allocated h1\<rparr>])\<rparr>"
proof (cases "first_with_args_at (case m_map_at h name of None \<Rightarrow> [] | Some v \<Rightarrow> v) n")
  case None
  let ?vec = "case m_map_at h name of None \<Rightarrow> [] | Some v \<Rightarrow> v"
  from assms None obtain vec' h1 where
    1: "(if reallocates lib (length ?vec) then reallocate lib ?vec h else Some (?vec, h)) = Some (vec', h1)"
    and 2: "r = (name, length vec')"
    and 3: "h' = h1\<lparr>objects := (objects h1)(allocated h1 \<mapsto> CallbackContainer_default),
               allocated := Suc (allocated h1),
               m_map_at := (m_map_at h1)(name \<mapsto>
                 vec' @ [\<lparr>num_args_at = n, op_at = Nop, function_at = allocated h1\<rparr>])\<rparr>"
    by (auto simp: get_or_new_at_def Let_def construct_def split: option.splits)
  from 1 have "(reallocates lib (length ?vec) \<and> reallocate lib ?vec h = Some (vec', h1)) \<or>
      (vec' = ?vec \<and> h1 = h)"
    by (auto split: if_splits)
  then show ?thesis using new[of ?vec vec' h1] None 2 3 by blast
next
  case (Some i)
  then obtain vec where v: "m_map_at h name = Some vec"
    by (cases "m_map_at h name") auto
  then have f: "first_with_args_at vec n = Some i" using Some by simp
  from get_or_new_at_found[OF v f, of lib] assms have "r = (name, i)" "h' = h" by simp_all
  then show ?thesis using found[OF v f] by blast
qed

lemma get_or_new_at_frame:
  assumes w: "within_allocated h" and g: "get_or_new_at lib name n h = Some (r, h')"
  shows "frame h h' \<and>
     (\<exists>vec. m_map_at h' (fst r) = Some vec \<and> snd r < length vec \<and>
        function_at (vec ! snd r) \<in> owned h')"
  using g
proof (cases rule: get_or_new_at_cases)
  case (found vec i)
  have "i < length vec" using first_with_args_at_Some[OF found(2)] by simp
  moreover from this have "function_at (vec ! i) \<in> owned h"
    using found(1) unfolding owned_iff by (metis imageI nth_mem)
  ultimately show ?thesis using found w by (simp add: frame_refl)
next
  case (new vec vec' h1)
  have wb: "\<forall>x c. objects h x = Some c \<longrightarrow> x < allocated h"
    and wo: "\<And>x. x \<in> owned h \<Longrightarrow> x < allocated h"
    using w by (simp_all add: within_allocated_def)
  have sub: "function_at ` set vec \<subseteq> owned h"
  proof (cases "m_map_at h name")
    case None
    then show ?thesis using new(1) by simp
  next
    case (Some v)
    then have e: "m_map_at h name = Some vec" using new(1) by simp
    show ?thesis
    proof (rule subsetI)
      fix x assume "x \<in> function_at ` set vec"
      then show "x \<in> owned h" unfolding owned_iff using e by blast
    qed
  qed
  have 1: "allocated h \<le> allocated h1 \<and> m_map_at h1 = m_map_at h \<and>
     (\<forall>x c. objects h1 x = Some c \<longrightarrow> x < allocated h1) \<and>
     (\<forall>x. x < allocated h \<and> x \<notin> function_at ` set vec \<longrightarrow> objects h1 x = objects h x) \<and>
     (\<forall>d \<in> set vec'. function_at d \<in> owned h \<or>
         (allocated h \<le> function_at d \<and> function_at d < allocated h1))"
    using new(3)
  proof
    assume "reallocates lib (length vec) \<and> reallocate lib vec h = Some (vec', h1)"
    then have "reallocate lib vec h = Some (vec', h1)" by simp
    from reallocate_frame[OF this wb] show ?thesis by blast
  next
    assume "vec' = vec \<and> h1 = h"
    then show ?thesis using wb sub by auto
  qed
  then have a1: "allocated h \<le> allocated h1" and m1: "m_map_at h1 = m_map_at h"
    and b1: "\<And>x c. objects h1 x = Some c \<Longrightarrow> x < allocated h1"
    and o1: "\<And>x. x < allocated h \<Longrightarrow> x \<notin> function_at ` set vec \<Longrightarrow> objects h1 x = objects h x"
    and v1: "\<And>d. d \<in> set vec' \<Longrightarrow> function_at d \<in> owned h \<or>
         (allocated h \<le> function_at d \<and> function_at d < allocated h1)"
    by blast+
  let ?new = "\<lparr>num_args_at = n, op_at = Nop, function_at = allocated h1\<rparr>"
  have al: "allocated h' = Suc (allocated h1)" using new(5) by simp
  have ob: "objects h' = (objects h1)(allocated h1 \<mapsto> CallbackContainer_default)"
    using new(5) by simp
  have mm: "m_map_at h' = (m_map_at h)(name \<mapsto> vec' @ [?new])"
    using new(5) m1 by simp
  have fr: "frame h h'"
  proof (rule frame_intro[OF w])
    show "allocated h \<le> allocated h'" using a1 al by simp
    show "x < allocated h'" if "objects h' x = Some c" for x c
      using that b1[of x c] al ob by (auto split: if_splits)
    show "x \<in> owned h \<or> (allocated h \<le> x \<and> x < allocated h')" if "x \<in> owned h'" for x
    proof -
      from that obtain name' v d where
        v: "m_map_at h' name' = Some v" and d: "d \<in> set v" and x: "x = function_at d"
        unfolding owned_iff by auto
      show ?thesis
      proof (cases "name' = name")
        case True
        then have "v = vec' @ [?new]" using v mm by simp
        then have "d \<in> set vec' \<or> d = ?new" using d by auto
        then show ?thesis using v1[of d] x a1 al by auto
      next
        case False
        then have "m_map_at h name' = Some v" using v mm by simp
        then have "x \<in> owned h" using d x unfolding owned_iff by blast
        then show ?thesis by simp
      qed
    qed
    show "objects h' x = objects h x" if "x < allocated h" "x \<notin> owned h" for x
    proof -
      have "x \<notin> function_at ` set vec" using that(2) sub by blast
      then have "objects h1 x = objects h x" using o1 that(1) by simp
      moreover have "x \<noteq> allocated h1" using that(1) a1 by simp
      ultimately show ?thesis using ob by simp
    qed
  qed
  have "m_map_at h' (fst r) = Some (vec' @ [?new])" using mm new(4) by simp
  moreover have "snd r < length (vec' @ [?new])" using new(4) by simp
  moreover have "function_at ((vec' @ [?new]) ! snd r) \<in> owned h'"
    unfolding owned_iff using mm new(4) by (intro exI[of _ name] exI[of _ "vec' @ [?new]"]) simp
  ultimately show ?thesis using fr by blast
qed

lemma frame_same_owned:
  assumes "within_allocated h" and "allocated h' = allocated h"
    and "\<And>x. x \<in> owned h' \<Longrightarrow> x \<in> owned h"
    and "\<And>x. x \<notin> owned h \<Longrightarrow> objects h' x = objects h x"
    and "\<And>x c. x \<in> owned h \<Longrightarrow> objects h' x = Some c \<Longrightarrow> True"
  shows "frame h h'"
proof (rule frame_intro[OF assms(1)])
  have wb: "\<And>x c. objects h x = Some c \<Longrightarrow> x < allocated h"
    and wo: "\<And>x. x \<in> owned h \<Longrightarrow> x < allocated h"
    using assms(1) by (auto simp: within_allocated_def)
  show "allocated h \<le> allocated h'" using assms(2) by simp
  show "x < allocated h'" if "objects h' x = Some c" for x c
  proof (cases "x \<in> owned h")
    case True
    then show ?thesis using wo assms(2) by simp
  next
    case False
    then show ?thesis using assms(4)[of x] that wb[of x c] assms(2) by simp
  qed
  show "x \<in> owned h \<or> allocated h \<le> x \<and> x < allocated h'" if "x \<in> owned h'" for x
    using assms(3)[OF that] by simp
  show "objects h' x = objects h x" if "x < allocated h" "x \<notin> owned h" for x
    using assms(4)[OF that(2)] .
qed

lemma add_builtin_at_frame:
  assumes w: "within_allocated h" and a: "add_builtin_at lib name n opc h = Some h'"
  shows "frame h h'"
proof -
  from a obtain r h1 vec where
    g: "get_or_new_at lib name n h = Some (r, h1)"
    and v: "m_map_at h1 (fst r) = Some vec" and i: "snd r < length vec"
    and e: "h' = h1\<lparr>m_map_at := (m_map_at h1)(fst r \<mapsto>
                    vec[snd r := (vec ! snd r)\<lparr>op_at := opc\<rparr>])\<rparr>"
    by (auto simp: add_builtin_at_def split: option.splits if_splits)
  have f1: "frame h h1" using get_or_new_at_frame[OF w g] by simp
  then have w1: "within_allocated h1" by (simp add: frame_def)
  have "frame h1 h'"
  proof (rule frame_same_owned[OF w1])
    show "allocated h' = allocated h1" using e by simp
    show "x \<in> owned h1" if "x \<in> owned h'" for x
    proof -
      from that obtain name' u d where
        u: "m_map_at h' name' = Some u" and d: "d \<in> set u" and x: "x = function_at d"
        unfolding owned_iff by auto
      show ?thesis
      proof (cases "name' = fst r")
        case True
        then have "u = vec[snd r := (vec ! snd r)\<lparr>op_at := opc\<rparr>]" using u e by simp
        then have "d \<in> set vec \<or> d = (vec ! snd r)\<lparr>op_at := opc\<rparr>"
          using d set_update_subset_insert[of vec "snd r"] by auto
        then have "function_at d \<in> function_at ` set vec"
          using i by (auto simp: image_iff intro: bexI[of _ "vec ! snd r"])
        then show ?thesis using v x unfolding owned_iff by blast
      next
        case False
        then have "m_map_at h1 name' = Some u" using u e by simp
        then show ?thesis using d x unfolding owned_iff by blast
      qed
    qed
    show "objects h' x = objects h1 x" for x using e by simp
  qed simp
  with f1 show ?thesis by (rule frame_trans)
qed

lemma add_callback_at_frame:
  assumes w: "within_allocated h" and a: "add_callback_at lib name n fn h = Some h'"
  shows "frame h h'"
proof -
  from a obtain r h1 vec c where
    g: "get_or_new_at lib name n h = Some (r, h1)"
    and v: "m_map_at h1 (fst r) = Some vec" and i: "snd r < length vec"
    and e: "h' = h1\<lparr>objects := (objects h1)(function_at (vec ! snd r) \<mapsto> c)\<rparr>"
    by (auto simp: add_callback_at_def split: option.splits if_splits)
  have f1: "frame h h1" using get_or_new_at_frame[OF w g] by simp
  then have w1: "within_allocated h1" by (simp add: frame_def)
  have o: "function_at (vec ! snd r) \<in> owned h1"
    using v i unfolding owned_iff by (metis imageI nth_mem)
  have "frame h1 h'"
  proof (rule frame_same_owned[OF w1])
    show "allocated h' = allocated h1" using e by simp
    show "x \<in> owned h1" if "x \<in> owned h'" for x
      using that e unfolding owned_iff by simp
    show "objects h' x = objects h1 x" if "x \<notin> owned h1" for x
      using that o e by auto
  qed simp
  with f1 show ?thesis by (rule frame_trans)
qed

lemma construct_frame:
  assumes w: "within_allocated h" and c: "construct c h = (a, h')"
  shows "frame h h' \<and> a = allocated h \<and> objects h a = None \<and> a \<notin> owned h \<and>
     objects h' a = Some c \<and> a < allocated h' \<and> m_map_at h' = m_map_at h"
proof -
  have wb: "\<And>x c. objects h x = Some c \<Longrightarrow> x < allocated h"
    and wo: "\<And>x. x \<in> owned h \<Longrightarrow> x < allocated h"
    using w by (auto simp: within_allocated_def)
  have a: "a = allocated h"
    using c by (simp add: construct_def)
  have h': "h' = h\<lparr>objects := (objects h)(allocated h \<mapsto> c), allocated := Suc (allocated h)\<rparr>"
    using c by (auto simp: construct_def)
  have n: "objects h a = None"
  proof (cases "objects h a")
    case (Some c')
    then show ?thesis using wb[of a c'] a by simp
  qed simp
  have no: "a \<notin> owned h" using wo[of a] a by auto
  have ow: "owned h' = owned h" using h' by (simp add: owned_def)
  have "frame h h'"
  proof (rule frame_intro[OF w])
    show "allocated h \<le> allocated h'" using h' by simp
    show "x < allocated h'" if "objects h' x = Some c'" for x c'
      using that wb[of x c'] h' by (auto split: if_splits)
    show "x \<in> owned h \<or> allocated h \<le> x \<and> x < allocated h'" if "x \<in> owned h'" for x
      using that ow by simp
    show "objects h' x = objects h x" if "x < allocated h" for x
      using that h' by simp
  qed
  then show ?thesis using a n no h' by simp
qed

lemma find_callback_at_frame:
  assumes w: "within_allocated h" and f: "find_callback_at name n h = Some (a, h')"
  shows "frame h h'"
proof -
  from f obtain c where "construct c h = (a, h')"
    by (auto simp: find_callback_at_def split: option.splits)
  from construct_frame[OF w this] show ?thesis by simp
qed

lemma exec_at_frame:
  assumes "within_allocated h" and "exec_at lib c h = Some (r, h')"
  shows "frame h h'"
proof (cases c)
  case (Add_builtin name n opc)
  then show ?thesis using assms add_builtin_at_frame[OF assms(1), of lib name n opc h']
    by (auto split: option.splits)
next
  case (Add_callback name n fn)
  then show ?thesis using assms add_callback_at_frame[OF assms(1), of lib name n fn h']
    by (auto split: option.splits)
next
  case (Find_builtin name n)
  then show ?thesis using assms by (auto simp: frame_refl)
next
  case (Find_callback name n)
  then show ?thesis using assms find_callback_at_frame[OF assms(1), of name n _ h']
    by (auto split: option.splits)
qed

lemma run_at_frame:
  "within_allocated h \<Longrightarrow> run_at lib cs h = Some (rs, h') \<Longrightarrow> frame h h'"
proof (induction cs arbitrary: h rs)
  case Nil
  then show ?case by (simp add: frame_refl)
next
  case (Cons c cs)
  from Cons.prems(2) obtain r h1 rs' where
    1: "exec_at lib c h = Some (r, h1)" and 2: "run_at lib cs h1 = Some (rs', h')"
    by (auto split: option.splits)
  have f1: "frame h h1" using exec_at_frame[OF Cons.prems(1) 1] .
  then have "within_allocated h1" by (simp add: frame_def)
  from Cons.IH[OF this 2] f1 show ?case using frame_trans by blast
qed

lemma within_allocated_default: "within_allocated memory_default"
  by (simp add: within_allocated_def memory_default_def owned_def)

subsection \<open>Histories on objects are defined\<close>

lemma move_elements_defined:
  assumes "\<forall>x c. objects h x = Some c \<longrightarrow> x < allocated h"
    and "\<forall>d \<in> set vec. \<exists>c. objects h (function_at d) = Some c \<and> tag_describes_payload c"
  shows "\<exists>vec' h'. move_elements lib vec h = Some (vec', h') \<and>
     map function_at vec' = [allocated h ..< allocated h + length vec] \<and>
     (\<forall>d \<in> set vec'. \<exists>c. objects h' (function_at d) = Some c \<and> tag_describes_payload c) \<and>
     (\<forall>d \<in> set vec. \<exists>c. objects h' (function_at d) = Some c \<and> tag_describes_payload c)"
  using assms
proof (induction vec arbitrary: h)
  case Nil
  then show ?case by simp
next
  case (Cons d vec)
  from Cons.prems(2) obtain other where
    o: "objects h (function_at d) = Some other" and t: "tag_describes_payload other"
    by auto
  from move_described[OF t, of "moved_value lib" "moved_streaming lib"] obtain c other' where
    m: "CallbackContainer_move (moved_value lib) (moved_streaming lib) other = Some (c, other')"
    and tc: "tag_describes_payload c" and to: "tag_describes_payload other'"
    by blast
  let ?h1 = "h\<lparr>objects := (objects h)(function_at d \<mapsto> other', allocated h \<mapsto> c),
           allocated := Suc (allocated h)\<rparr>"
  have fd: "function_at d < allocated h" using o Cons.prems(1) by blast
  have b1: "\<forall>x c. objects ?h1 x = Some c \<longrightarrow> x < allocated ?h1"
    using Cons.prems(1) fd by (auto split: if_splits)
  have e1: "\<forall>e \<in> set vec. \<exists>c. objects ?h1 (function_at e) = Some c \<and> tag_describes_payload c"
    using Cons.prems(2) tc to by auto
  from Cons.IH[OF b1 e1] obtain vec1 h' where
    r: "move_elements lib vec ?h1 = Some (vec1, h')"
    and a1: "map function_at vec1 = [allocated ?h1 ..< allocated ?h1 + length vec]"
    and n1: "\<forall>d \<in> set vec1. \<exists>c. objects h' (function_at d) = Some c \<and> tag_describes_payload c"
    and k1: "\<forall>d \<in> set vec. \<exists>c. objects h' (function_at d) = Some c \<and> tag_describes_payload c"
    by blast
  note fr = move_elements_frame[OF r b1]
  have same: "\<And>x. x < Suc (allocated h) \<Longrightarrow> x \<notin> function_at ` set vec \<Longrightarrow>
      objects h' x = objects ?h1 x"
    using fr by simp
  have old: "\<And>e. e \<in> set vec \<Longrightarrow> function_at e < allocated h"
    using Cons.prems by auto
  have head_new: "objects h' (allocated h) = Some c"
  proof -
    have "allocated h \<notin> function_at ` set vec" using old by fastforce
    then have "objects h' (allocated h) = objects ?h1 (allocated h)" using same by simp
    then show ?thesis by simp
  qed
  have head_old: "\<exists>c. objects h' (function_at d) = Some c \<and> tag_describes_payload c"
  proof (cases "function_at d \<in> function_at ` set vec")
    case True
    then show ?thesis using k1 by auto
  next
    case False
    then have "objects h' (function_at d) = objects ?h1 (function_at d)"
      using same fd by simp
    then show ?thesis using to fd by simp
  qed
  let ?vec' = "d\<lparr>function_at := allocated h\<rparr> # vec1"
  have 1: "move_elements lib (d # vec) h = Some (?vec', h')"
    using o m r by simp
  have u: "[allocated h ..< allocated h + Suc (length vec)] =
      allocated h # [Suc (allocated h) ..< allocated h + Suc (length vec)]"
    by (rule upt_conv_Cons) simp
  have a1': "map function_at vec1 = [Suc (allocated h) ..< allocated h + Suc (length vec)]"
    using a1 by (simp del: upt_Suc)
  have 2: "map function_at ?vec' = [allocated h ..< allocated h + length (d # vec)]"
    using a1' u by (simp del: upt_Suc)
  have 3: "\<forall>e \<in> set ?vec'. \<exists>c. objects h' (function_at e) = Some c \<and> tag_describes_payload c"
    using n1 head_new tc by simp
  have 4: "\<forall>e \<in> set (d # vec). \<exists>c. objects h' (function_at e) = Some c \<and> tag_describes_payload c"
    using k1 head_old by simp
  show ?case using 1 2 3 4 by blast
qed

lemma destroy_elements_defined:
  assumes "distinct (map function_at vec)"
    and "\<forall>d \<in> set vec. \<exists>c. objects h (function_at d) = Some c \<and> tag_describes_payload c"
  shows "\<exists>h'. destroy_elements vec h = Some h'"
  using assms
proof (induction vec arbitrary: h)
  case Nil
  then show ?case by simp
next
  case (Cons d vec)
  from Cons.prems(2) obtain this where
    o: "objects h (function_at d) = Some this" and t: "tag_describes_payload this"
    by auto
  have ds: "CallbackContainer_destroy this = Some Callback_inactive"
    using destroy_described[OF t] .
  let ?h1 = "h\<lparr>objects := (objects h)(function_at d := None)\<rparr>"
  have nd: "function_at e \<noteq> function_at d" if "e \<in> set vec" for e
  proof -
    have "function_at d \<notin> set (map function_at vec)" using Cons.prems(1) by simp
    moreover have "function_at e \<in> set (map function_at vec)" using that by simp
    ultimately show ?thesis by metis
  qed
  have e1: "\<forall>e \<in> set vec. \<exists>c. objects ?h1 (function_at e) = Some c \<and> tag_describes_payload c"
    using Cons.prems(2) nd by auto
  have d1: "distinct (map function_at vec)" using Cons.prems(1) by simp
  from Cons.IH[OF d1 e1] obtain h' where "destroy_elements vec ?h1 = Some h'" by blast
  then show ?case using o ds by simp
qed

lemma reallocate_defined:
  assumes b: "\<forall>x c. objects h x = Some c \<longrightarrow> x < allocated h"
    and di: "distinct (map function_at vec)"
    and ob: "\<forall>d \<in> set vec. \<exists>c. objects h (function_at d) = Some c \<and> tag_describes_payload c"
  shows "\<exists>vec' h'. reallocate lib vec h = Some (vec', h') \<and>
     distinct (map function_at vec') \<and>
     (\<forall>d \<in> set vec'. \<exists>c. objects h' (function_at d) = Some c \<and> tag_describes_payload c)"
proof -
  from move_elements_defined[OF b ob, of lib] obtain vec' h1 where
    m: "move_elements lib vec h = Some (vec', h1)"
    and a: "map function_at vec' = [allocated h ..< allocated h + length vec]"
    and n: "\<forall>d \<in> set vec'. \<exists>c. objects h1 (function_at d) = Some c \<and> tag_describes_payload c"
    and k: "\<forall>d \<in> set vec. \<exists>c. objects h1 (function_at d) = Some c \<and> tag_describes_payload c"
    by blast
  from destroy_elements_defined[OF di k] obtain h' where
    d: "destroy_elements vec h1 = Some h'" by blast
  note df = destroy_elements_frame[OF d]
  have old: "\<And>e. e \<in> set vec \<Longrightarrow> function_at e < allocated h"
    using b ob by blast
  have new: "\<And>e. e \<in> set vec' \<Longrightarrow> allocated h \<le> function_at e"
    using move_elements_frame[OF m b] by blast
  have "\<exists>c. objects h' (function_at e) = Some c \<and> tag_describes_payload c" if "e \<in> set vec'" for e
  proof -
    have "function_at e \<notin> function_at ` set vec"
    proof
      assume "function_at e \<in> function_at ` set vec"
      then obtain e' where "e' \<in> set vec" "function_at e = function_at e'" by blast
      then show False using old[of e'] new[OF that] by simp
    qed
    then have "objects h' (function_at e) = objects h1 (function_at e)" using df by blast
    then show ?thesis using n that by simp
  qed
  moreover have "distinct (map function_at vec')" using a by simp
  moreover have "reallocate lib vec h = Some (vec', h')"
    using m d by (simp add: reallocate_def)
  ultimately show ?thesis by blast
qed

lemma registry_objects_D:
  assumes "registry_objects h"
  shows "within_allocated h"
    and "\<And>name vec. m_map_at h name = Some vec \<Longrightarrow> distinct (map function_at vec)"
    and "\<And>name vec d. m_map_at h name = Some vec \<Longrightarrow> d \<in> set vec \<Longrightarrow>
           \<exists>c. objects h (function_at d) = Some c \<and> tag_describes_payload c"
    and "\<And>name name' vec vec' d d'. m_map_at h name = Some vec \<Longrightarrow>
           m_map_at h name' = Some vec' \<Longrightarrow> name \<noteq> name' \<Longrightarrow> d \<in> set vec \<Longrightarrow> d' \<in> set vec' \<Longrightarrow>
           function_at d \<noteq> function_at d'"
proof -
  show "within_allocated h" using assms by (simp add: registry_objects_def)
  show "distinct (map function_at vec)" if "m_map_at h name = Some vec" for name vec
    using assms that unfolding registry_objects_def by blast
  show "\<exists>c. objects h (function_at d) = Some c \<and> tag_describes_payload c"
    if "m_map_at h name = Some vec" "d \<in> set vec" for name vec d
    using assms that unfolding registry_objects_def by blast
  show "function_at d \<noteq> function_at d'"
    if "m_map_at h name = Some vec" "m_map_at h name' = Some vec'" "name \<noteq> name'"
      "d \<in> set vec" "d' \<in> set vec'" for name name' vec vec' d d'
  proof -
    have "function_at ` set vec \<inter> function_at ` set vec' = {}"
      using assms that(1,2,3) unfolding registry_objects_def by blast
    then show ?thesis using that(4,5) by blast
  qed
qed

lemma registry_objects_I:
  assumes "within_allocated h"
    and "\<And>name vec. m_map_at h name = Some vec \<Longrightarrow> distinct (map function_at vec)"
    and "\<And>name vec d. m_map_at h name = Some vec \<Longrightarrow> d \<in> set vec \<Longrightarrow>
           \<exists>c. objects h (function_at d) = Some c \<and> tag_describes_payload c"
    and "\<And>name name' vec vec' d d'. m_map_at h name = Some vec \<Longrightarrow>
           m_map_at h name' = Some vec' \<Longrightarrow> name \<noteq> name' \<Longrightarrow> d \<in> set vec \<Longrightarrow> d' \<in> set vec' \<Longrightarrow>
           function_at d \<noteq> function_at d'"
  shows "registry_objects h"
  unfolding registry_objects_def
proof (intro conjI allI impI ballI)
  show "within_allocated h" by (rule assms(1))
  show "distinct (map function_at vec)" if "m_map_at h name = Some vec" for name vec
    using assms(2)[OF that] .
  show "\<exists>c. objects h (function_at d) = Some c \<and> tag_describes_payload c"
    if "m_map_at h name = Some vec" "d \<in> set vec" for name vec d
    using assms(3)[OF that] .
  show "function_at ` set vec \<inter> function_at ` set vec' = {}"
    if "m_map_at h name = Some vec \<and> m_map_at h name' = Some vec' \<and> name \<noteq> name'"
    for name name' vec vec'
  proof (rule ccontr)
    assume "function_at ` set vec \<inter> function_at ` set vec' \<noteq> {}"
    then obtain d d' where "d \<in> set vec" "d' \<in> set vec'" "function_at d = function_at d'"
      by blast
    then show False using assms(4)[of name vec name' vec' d d'] that by blast
  qed
qed

lemma get_or_new_at_defined:
  assumes inv: "registry_objects h"
  shows "\<exists>r h'. get_or_new_at lib name n h = Some (r, h') \<and> registry_objects h'"
proof (cases "first_with_args_at (case m_map_at h name of None \<Rightarrow> [] | Some v \<Rightarrow> v) n")
  case (Some i)
  then obtain v where v: "m_map_at h name = Some v"
    by (cases "m_map_at h name") auto
  then have "first_with_args_at v n = Some i" using Some by simp
  from get_or_new_at_found[OF v this, of lib] inv show ?thesis by blast
next
  case None
  define vec where "vec = (case m_map_at h name of None \<Rightarrow> [] | Some v \<Rightarrow> v)"
  note D = registry_objects_D[OF inv]
  have w: "within_allocated h" by (rule D(1))
  have wb: "\<forall>x c. objects h x = Some c \<longrightarrow> x < allocated h"
    using w by (simp add: within_allocated_def)
  have vec_cases: "(m_map_at h name = None \<and> vec = []) \<or> m_map_at h name = Some vec"
    unfolding vec_def by (cases "m_map_at h name") auto
  have dv: "distinct (map function_at vec)"
    using vec_cases D(2)[of name vec] by auto
  have ov: "\<forall>d \<in> set vec. \<exists>c. objects h (function_at d) = Some c \<and> tag_describes_payload c"
    using vec_cases D(3)[of name vec] by auto
  have other: "function_at d' \<notin> function_at ` set vec"
    if "m_map_at h name' = Some v'" "name' \<noteq> name" "d' \<in> set v'" for name' v' d'
  proof
    assume "function_at d' \<in> function_at ` set vec"
    then obtain d where d: "d \<in> set vec" "function_at d' = function_at d" by blast
    then have "m_map_at h name = Some vec" using vec_cases by auto
    from D(4)[OF this that(1) _ d(1) that(3)] that(2) d(2) show False by simp
  qed
  have "\<exists>vec' h1. (if reallocates lib (length vec) then reallocate lib vec h else Some (vec, h)) =
        Some (vec', h1) \<and>
      distinct (map function_at vec') \<and>
      (\<forall>d \<in> set vec'. \<exists>c. objects h1 (function_at d) = Some c \<and> tag_describes_payload c) \<and>
      allocated h \<le> allocated h1 \<and> m_map_at h1 = m_map_at h \<and>
      (\<forall>x c. objects h1 x = Some c \<longrightarrow> x < allocated h1) \<and>
      (\<forall>x. x < allocated h \<and> x \<notin> function_at ` set vec \<longrightarrow> objects h1 x = objects h x) \<and>
      (\<forall>d \<in> set vec'. function_at d \<in> function_at ` set vec \<or> allocated h \<le> function_at d)"
  proof (cases "reallocates lib (length vec)")
    case True
    from reallocate_defined[OF wb dv ov, of lib] obtain vec' h1 where
      r: "reallocate lib vec h = Some (vec', h1)"
      and 1: "distinct (map function_at vec')"
      and 2: "\<forall>d \<in> set vec'. \<exists>c. objects h1 (function_at d) = Some c \<and> tag_describes_payload c"
      by blast
    from reallocate_frame[OF r wb] show ?thesis using True r 1 2 by auto
  next
    case False
    then show ?thesis using dv ov wb by auto
  qed
  then obtain vec' h1 where
    st: "(if reallocates lib (length vec) then reallocate lib vec h else Some (vec, h)) = Some (vec', h1)"
    and dv': "distinct (map function_at vec')"
    and ov': "\<And>d. d \<in> set vec' \<Longrightarrow> \<exists>c. objects h1 (function_at d) = Some c \<and> tag_describes_payload c"
    and a1: "allocated h \<le> allocated h1" and m1: "m_map_at h1 = m_map_at h"
    and b1: "\<And>x c. objects h1 x = Some c \<Longrightarrow> x < allocated h1"
    and o1: "\<And>x. x < allocated h \<Longrightarrow> x \<notin> function_at ` set vec \<Longrightarrow> objects h1 x = objects h x"
    and v1: "\<And>d. d \<in> set vec' \<Longrightarrow> function_at d \<in> function_at ` set vec \<or> allocated h \<le> function_at d"
    by blast
  let ?new = "\<lparr>num_args_at = n, op_at = Nop, function_at = allocated h1\<rparr> :: 'a FunctionData_at"
  let ?h' = "h1\<lparr>objects := (objects h1)(allocated h1 \<mapsto> CallbackContainer_default),
               allocated := Suc (allocated h1),
               m_map_at := (m_map_at h1)(name \<mapsto> vec' @ [?new])\<rparr>"
  have g: "get_or_new_at lib name n h = Some ((name, length vec'), ?h')"
    using None st unfolding vec_def
    by (simp add: get_or_new_at_def Let_def construct_def)
  have w': "within_allocated ?h'"
    using get_or_new_at_frame[OF w g] by (simp add: frame_def)
  have lt: "function_at d < allocated h1" if "d \<in> set vec'" for d
    using ov'[OF that] b1 by blast
  have mm: "m_map_at ?h' = (m_map_at h)(name \<mapsto> vec' @ [?new])" using m1 by simp
  have keep: "objects ?h' (function_at d') = objects h (function_at d') \<and>
      function_at d' < allocated h"
    if "m_map_at h name' = Some v'" "name' \<noteq> name" "d' \<in> set v'" for name' v' d'
  proof -
    from D(3)[OF that(1,3)] wb have l: "function_at d' < allocated h" by blast
    then have "objects h1 (function_at d') = objects h (function_at d')"
      using o1 other[OF that] by simp
    moreover have "function_at d' \<noteq> allocated h1" using l a1 by simp
    ultimately show ?thesis using l by simp
  qed
  have apart: "function_at d \<noteq> function_at d'"
    if "d \<in> set (vec' @ [?new])" "m_map_at h name' = Some v'" "name' \<noteq> name" "d' \<in> set v'"
    for d name' v' d'
  proof -
    have l: "function_at d' < allocated h" using keep[OF that(2,3,4)] by simp
    from that(1) have "d \<in> set vec' \<or> d = ?new" by auto
    then show ?thesis
    proof
      assume "d \<in> set vec'"
      from v1[OF this] show ?thesis
      proof
        assume "function_at d \<in> function_at ` set vec"
        then show ?thesis using other[OF that(2,3,4)] by metis
      next
        assume "allocated h \<le> function_at d"
        then show ?thesis using l by simp
      qed
    next
      assume "d = ?new"
      then show ?thesis using l a1 by simp
    qed
  qed
  have "registry_objects ?h'"
  proof (rule registry_objects_I[OF w'])
    fix name0 v0
    assume v0: "m_map_at ?h' name0 = Some v0"
    show "distinct (map function_at v0)"
    proof (cases "name0 = name")
      case True
      then have e: "v0 = vec' @ [?new]" using v0 mm by simp
      have "allocated h1 \<notin> set (map function_at vec')" using lt by fastforce
      then show ?thesis using e dv' by simp
    next
      case False
      then have "m_map_at h name0 = Some v0" using v0 mm by simp
      then show ?thesis by (rule D(2))
    qed
  next
    fix name0 v0 d
    assume v0: "m_map_at ?h' name0 = Some v0" and d: "d \<in> set v0"
    show "\<exists>c. objects ?h' (function_at d) = Some c \<and> tag_describes_payload c"
    proof (cases "name0 = name")
      case True
      then have "v0 = vec' @ [?new]" using v0 mm by simp
      then have "d \<in> set vec' \<or> d = ?new" using d by auto
      then show ?thesis
      proof
        assume i: "d \<in> set vec'"
        then have "function_at d \<noteq> allocated h1" using lt[OF i] by simp
        then show ?thesis using ov'[OF i] by simp
      next
        assume "d = ?new"
        then show ?thesis by (simp add: tag_describes_payload_default)
      qed
    next
      case False
      then have m: "m_map_at h name0 = Some v0" using v0 mm by simp
      show ?thesis using keep[OF m False d] D(3)[OF m d] by simp
    qed
  next
    fix name0 name1 v0 v1 d0 d1
    assume v0: "m_map_at ?h' name0 = Some v0" and v1: "m_map_at ?h' name1 = Some v1"
      and ne: "name0 \<noteq> name1" and d0: "d0 \<in> set v0" and d1: "d1 \<in> set v1"
    show "function_at d0 \<noteq> function_at d1"
    proof (cases "name0 = name")
      case True
      then have e0: "d0 \<in> set (vec' @ [?new])" using v0 mm d0 by simp
      have n1: "name1 \<noteq> name" using True ne by simp
      then have "m_map_at h name1 = Some v1" using v1 mm by simp
      from apart[OF e0 this n1 d1] show ?thesis .
    next
      case False
      then have m0: "m_map_at h name0 = Some v0" using v0 mm by simp
      show ?thesis
      proof (cases "name1 = name")
        case True
        then have e1: "d1 \<in> set (vec' @ [?new])" using v1 mm d1 by simp
        from apart[OF e1 m0 False d0] show ?thesis by simp
      next
        case n1: False
        then have "m_map_at h name1 = Some v1" using v1 mm by simp
        from D(4)[OF m0 this ne d0 d1] show ?thesis .
      qed
    qed
  qed
  then show ?thesis using g by blast
qed

lemma add_builtin_at_defined:
  assumes inv: "registry_objects h"
  shows "\<exists>h'. add_builtin_at lib name n opc h = Some h' \<and> registry_objects h'"
proof -
  from get_or_new_at_defined[OF inv, of lib name n] obtain r h1 where
    g: "get_or_new_at lib name n h = Some (r, h1)" and inv1: "registry_objects h1"
    by blast
  note D = registry_objects_D[OF inv]
  note D1 = registry_objects_D[OF inv1]
  from get_or_new_at_frame[OF D(1) g] obtain vec where
    v: "m_map_at h1 (fst r) = Some vec" and i: "snd r < length vec"
    by blast
  let ?vec' = "vec[snd r := (vec ! snd r)\<lparr>op_at := opc\<rparr>]"
  let ?h' = "h1\<lparr>m_map_at := (m_map_at h1)(fst r \<mapsto> ?vec')\<rparr>"
  have a: "add_builtin_at lib name n opc h = Some ?h'"
    using g v i by (simp add: add_builtin_at_def)
  have w': "within_allocated ?h'"
    using add_builtin_at_frame[OF D(1) a] by (simp add: frame_def)
  have addr: "map function_at ?vec' = map function_at vec"
    using i by (simp add: map_update list_update_same_conv)
  have orig: "\<exists>v. m_map_at h1 name0 = Some v \<and> map function_at v0 = map function_at v"
    if b: "m_map_at ?h' name0 = Some v0" for name0 v0
  proof (cases "name0 = fst r")
    case True
    then have "v0 = ?vec'" using b by simp
    then show ?thesis using True v addr by simp
  next
    case False
    then show ?thesis using b by simp
  qed
  have elem: "\<exists>d'. d' \<in> set v \<and> function_at d' = function_at d"
    if e: "map function_at v0 = map function_at v" and d: "d \<in> set v0"
    for v0 v :: "'a FunctionData_at list" and d
  proof -
    have "function_at d \<in> set (map function_at v0)" using d by simp
    then have "function_at d \<in> set (map function_at v)" using e by simp
    then show ?thesis by auto
  qed
  have "registry_objects ?h'"
  proof (rule registry_objects_I[OF w'])
    fix name0 v0
    assume "m_map_at ?h' name0 = Some v0"
    from orig[OF this] obtain v' where "m_map_at h1 name0 = Some v'"
      "map function_at v0 = map function_at v'" by blast
    then show "distinct (map function_at v0)" using D1(2) by simp
  next
    fix name0 v0 d
    assume "m_map_at ?h' name0 = Some v0" and d: "d \<in> set v0"
    from orig[OF this(1)] obtain v' where m: "m_map_at h1 name0 = Some v'"
      and e: "map function_at v0 = map function_at v'" by blast
    from elem[OF e d] obtain d' where "d' \<in> set v'" "function_at d' = function_at d" by blast
    then show "\<exists>c. objects ?h' (function_at d) = Some c \<and> tag_describes_payload c"
      using D1(3)[OF m, of d'] by simp
  next
    fix name0 name1 v0 v1 d0 d1
    assume "m_map_at ?h' name0 = Some v0" and "m_map_at ?h' name1 = Some v1"
      and ne: "name0 \<noteq> name1" and d0: "d0 \<in> set v0" and d1: "d1 \<in> set v1"
    from orig[OF this(1)] obtain v0' where m0: "m_map_at h1 name0 = Some v0'"
      and e0: "map function_at v0 = map function_at v0'" by blast
    from orig[OF \<open>m_map_at ?h' name1 = Some v1\<close>] obtain v1' where m1: "m_map_at h1 name1 = Some v1'"
      and e1: "map function_at v1 = map function_at v1'" by blast
    from elem[OF e0 d0] obtain d0' where x0: "d0' \<in> set v0'" "function_at d0' = function_at d0" by blast
    from elem[OF e1 d1] obtain d1' where x1: "d1' \<in> set v1'" "function_at d1' = function_at d1" by blast
    from D1(4)[OF m0 m1 ne x0(1) x1(1)] show "function_at d0 \<noteq> function_at d1"
      using x0(2) x1(2) by simp
  qed
  then show ?thesis using a by blast
qed

lemma add_callback_at_defined:
  assumes inv: "registry_objects h"
  shows "\<exists>h'. add_callback_at lib name n fn h = Some h' \<and> registry_objects h'"
proof -
  from get_or_new_at_defined[OF inv, of lib name n] obtain r h1 where
    g: "get_or_new_at lib name n h = Some (r, h1)" and inv1: "registry_objects h1"
    by blast
  note D = registry_objects_D[OF inv]
  note D1 = registry_objects_D[OF inv1]
  from get_or_new_at_frame[OF D(1) g] obtain vec where
    v: "m_map_at h1 (fst r) = Some vec" and i: "snd r < length vec"
    by blast
  have "vec ! snd r \<in> set vec" using i by simp
  from D1(3)[OF v this] obtain tgt where
    o: "objects h1 (function_at (vec ! snd r)) = Some tgt" by blast
  let ?h' = "h1\<lparr>objects := (objects h1)(function_at (vec ! snd r) \<mapsto> CallbackContainer_from fn)\<rparr>"
  have a: "add_callback_at lib name n fn h = Some ?h'"
    using g v i o by (simp add: add_callback_at_def assign_move_from)
  have w': "within_allocated ?h'"
    using add_callback_at_frame[OF D(1) a] by (simp add: frame_def)
  have "registry_objects ?h'"
  proof (rule registry_objects_I[OF w'])
    fix name0 v0
    assume "m_map_at ?h' name0 = Some v0"
    then show "distinct (map function_at v0)" using D1(2)[of name0 v0] by simp
  next
    fix name0 v0 d
    assume "m_map_at ?h' name0 = Some v0" and d: "d \<in> set v0"
    then have "m_map_at h1 name0 = Some v0" by simp
    from D1(3)[OF this d] show "\<exists>c. objects ?h' (function_at d) = Some c \<and> tag_describes_payload c"
      by (simp add: tag_describes_payload_from)
  next
    fix name0 name1 v0 v1 d0 d1
    assume "m_map_at ?h' name0 = Some v0" and "m_map_at ?h' name1 = Some v1"
      and ne: "name0 \<noteq> name1" and d0: "d0 \<in> set v0" and d1: "d1 \<in> set v1"
    then have "m_map_at h1 name0 = Some v0" "m_map_at h1 name1 = Some v1" by simp_all
    from D1(4)[OF this ne d0 d1] show "function_at d0 \<noteq> function_at d1" .
  qed
  then show ?thesis using a by blast
qed

lemma find_callback_at_defined:
  assumes inv: "registry_objects h"
  shows "\<exists>a h'. find_callback_at name n h = Some (a, h') \<and> registry_objects h' \<and>
     (\<exists>c. objects h' a = Some c \<and> tag_describes_payload c)"
proof -
  note D = registry_objects_D[OF inv]
  have wo: "\<And>x c. objects h x = Some c \<Longrightarrow> x < allocated h"
    using D(1) by (auto simp: within_allocated_def)
  have "\<exists>c. find_callback_at name n h = Some (construct c h) \<and> tag_describes_payload c"
  proof (cases "get_at name n h")
    case None
    then have "find_callback_at name n h = Some (construct CallbackContainer_default h)"
      by (simp add: find_callback_at_def)
    then show ?thesis using tag_describes_payload_default by blast
  next
    case (Some d)
    then obtain vec where v: "m_map_at h name = Some vec" and d: "d \<in> set vec"
      by (auto simp: get_at_def find_Some_iff split: option.splits)
    from D(3)[OF v d] obtain other where
      o: "objects h (function_at d) = Some other" and t: "tag_describes_payload other" by blast
    have "find_callback_at name n h = Some (construct other h)"
      using Some o t by (simp add: find_callback_at_def copy_described)
    then show ?thesis using t by blast
  qed
  then obtain c where f: "find_callback_at name n h = Some (construct c h)"
    and t: "tag_describes_payload c" by blast
  obtain a h' where k: "construct c h = (a, h')" by (cases "construct c h")
  note cf = construct_frame[OF D(1) k]
  have "frame h h'" using cf by blast
  then have w': "within_allocated h'" by (simp add: frame_def)
  have a: "a = allocated h" and m: "m_map_at h' = m_map_at h" using cf by blast+
  have ob: "objects h' = (objects h)(allocated h \<mapsto> c)" using k by (auto simp: construct_def)
  have "registry_objects h'"
  proof (rule registry_objects_I[OF w'])
    fix name0 v0
    assume "m_map_at h' name0 = Some v0"
    then show "distinct (map function_at v0)" using D(2)[of name0 v0] m by simp
  next
    fix name0 v0 d
    assume "m_map_at h' name0 = Some v0" and d: "d \<in> set v0"
    then have "m_map_at h name0 = Some v0" using m by simp
    from D(3)[OF this d] obtain c' where
      o: "objects h (function_at d) = Some c'" and t': "tag_describes_payload c'" by blast
    then have "function_at d \<noteq> allocated h" using wo[of "function_at d" c'] by simp
    then show "\<exists>c. objects h' (function_at d) = Some c \<and> tag_describes_payload c"
      using o t' ob by simp
  next
    fix name0 name1 v0 v1 d0 d1
    assume "m_map_at h' name0 = Some v0" and "m_map_at h' name1 = Some v1"
      and ne: "name0 \<noteq> name1" and d0: "d0 \<in> set v0" and d1: "d1 \<in> set v1"
    then have "m_map_at h name0 = Some v0" "m_map_at h name1 = Some v1" using m by simp_all
    from D(4)[OF this ne d0 d1] show "function_at d0 \<noteq> function_at d1" .
  qed
  moreover have "objects h' a = Some c" using cf by blast
  ultimately show ?thesis using f k t by auto
qed

lemma exec_at_defined:
  assumes "registry_objects h"
  shows "\<exists>r h'. exec_at lib c h = Some (r, h') \<and> registry_objects h'"
proof (cases c)
  case (Add_builtin name n opc)
  then show ?thesis using add_builtin_at_defined[OF assms, of lib name n opc] by auto
next
  case (Add_callback name n fn)
  then show ?thesis using add_callback_at_defined[OF assms, of lib name n fn] by auto
next
  case (Find_builtin name n)
  then show ?thesis using assms by simp
next
  case (Find_callback name n)
  then show ?thesis using find_callback_at_defined[OF assms, of name n] by auto
qed

lemma run_at_defined:
  "registry_objects h \<Longrightarrow> \<exists>rs h'. run_at lib cs h = Some (rs, h') \<and> registry_objects h'"
proof (induction cs arbitrary: h)
  case Nil
  then show ?case by simp
next
  case (Cons c cs)
  from exec_at_defined[OF Cons.prems, of lib c] obtain r h1 where
    1: "exec_at lib c h = Some (r, h1)" and i1: "registry_objects h1" by blast
  from Cons.IH[OF i1] obtain rs h' where
    2: "run_at lib cs h1 = Some (rs, h')" and i2: "registry_objects h'" by blast
  show ?case using 1 2 i2 by simp
qed

lemma registry_objects_default: "registry_objects memory_default"
  by (simp add: registry_objects_def within_allocated_def memory_default_def owned_def)

subsection \<open>The container a lookup returned, as an object\<close>

lemma copy_populated_described:
  assumes "CallbackContainer_copy x = Some c" and "CallbackContainer_bool c"
  shows "tag_describes_payload c"
proof (cases x)
  case (fields t p)
  then show ?thesis using assms
    by (cases t; cases p)
       (auto simp: CallbackContainer_copy_def CallbackContainer_bool_def tag_describes_payload_def)
qed

lemma add_callback_at_registered:
  assumes g: "get_at name n h = Some d" and o: "objects h (function_at d) = Some this"
  shows "add_callback_at lib name n fn h =
     Some (h\<lparr>objects := (objects h)(function_at d \<mapsto> holding fn)\<rparr>)"
proof -
  from g obtain vec where v: "m_map_at h name = Some vec"
    and f: "find (\<lambda>i. num_args_at i = n) vec = Some d"
    by (auto simp: get_at_def split: option.splits)
  from f obtain i where i: "first_with_args_at vec n = Some i" and d: "vec ! i = d"
    by (auto simp: find_first_with_args_at)
  have l: "i < length vec" using first_with_args_at_Some[OF i] by simp
  have am: "CallbackContainer_assign_move this (CallbackContainer_from fn) = Some (holding fn)"
    using assign_move_from[of this fn] by (simp add: from_holding)
  show ?thesis
    using get_or_new_at_found[OF v i, of lib] v l d o am
    by (simp add: add_callback_at_def)
qed

text \<open>
  C9. Let \<open>find_callback\<close> be called in a memory where every live object and every
  container of the registry lies at an address that has been handed out (as it is after
  any history of calls), and let the container it returns be populated. The returned container is a new object:
  its address held no object before the call and is not the address of a container of
  the registry, in particular not that of the entry, whose container the call leaves
  as it was. It has the tag and the payload of the container of the entry, and its tag
  describes its payload. A registration of another callback under the key, made next,
  writes that callback into the container of the entry and leaves the returned
  container as it was; and after any calls that follow the lookup the returned
  container is still at its address with the tag and payload it had when it was
  returned, and no container of the registry has come to lie there. Such memories and
  calls exist: after any history of calls on a new registry, \<open>find_callback\<close> returns an
  object and any calls that follow are defined.
\<close>

theorem returned_copy_is_independent:
  assumes w: "within_allocated h"
    and f: "find_callback_at name n h = Some (a, h1)"
    and c: "objects h1 a = Some c"
    and p: "CallbackContainer_bool c"
    and post: "run_at lib post h1 = Some (rs2, h2)"
  shows "objects h a = None \<and> a \<notin> owned h1 \<and>
     (\<exists>d other. get_at name n h = Some d \<and> function_at d \<noteq> a \<and>
        objects h (function_at d) = Some other \<and>
        objects h1 (function_at d) = Some other \<and>
        type c = type other \<and> callback c = callback other \<and>
        (\<exists>h3. add_callback_at lib name n fn h1 = Some h3 \<and>
           objects h3 (function_at d) = Some (holding fn) \<and>
           objects h3 a = Some c)) \<and>
     tag_describes_payload c \<and>
     objects h2 a = Some c \<and> a \<notin> owned h2 \<and>
     (\<exists>rs g b g1 e rs' g2.
        run_at lib hist memory_default = Some (rs, g) \<and> within_allocated g \<and>
        find_callback_at nm ar g = Some (b, g1) \<and> objects g1 b = Some e \<and>
        run_at lib later g1 = Some (rs', g2))"
proof -
  have defined: "\<exists>rs g b g1 e rs' g2.
        run_at lib hist memory_default = Some (rs, g) \<and> within_allocated g \<and>
        find_callback_at nm ar g = Some (b, g1) \<and> objects g1 b = Some e \<and>
        run_at lib later g1 = Some (rs', g2)"
  proof -
    from run_at_defined[OF registry_objects_default, of lib hist] obtain rs g where
      1: "run_at lib hist memory_default = Some (rs, g)" and i0: "registry_objects g"
      by blast
    from find_callback_at_defined[OF i0, of nm ar] obtain b g1 e where
      2: "find_callback_at nm ar g = Some (b, g1)" and i1: "registry_objects g1"
      and 3: "objects g1 b = Some e"
      by blast
    from run_at_defined[OF i1, of lib later] obtain rs' g2 where
      4: "run_at lib later g1 = Some (rs', g2)" by blast
    have 5: "within_allocated g" using registry_objects_D(1)[OF i0] .
    show ?thesis
    proof (intro exI conjI)
      show "run_at lib hist memory_default = Some (rs, g)" by (rule 1)
      show "within_allocated g" by (rule 5)
      show "find_callback_at nm ar g = Some (b, g1)" by (rule 2)
      show "objects g1 b = Some e" by (rule 3)
      show "run_at lib later g1 = Some (rs', g2)" by (rule 4)
    qed
  qed
  have wo: "\<And>x. x \<in> owned h \<Longrightarrow> x < allocated h"
    using w by (simp add: within_allocated_def)
  from f obtain c' where k: "construct c' h = (a, h1)"
    and src: "(\<exists>d other. get_at name n h = Some d \<and> objects h (function_at d) = Some other \<and>
        CallbackContainer_copy other = Some c') \<or>
      (get_at name n h = None \<and> c' = CallbackContainer_default)"
    by (auto simp: find_callback_at_def split: option.splits)
  note cf = construct_frame[OF w k]
  then have a: "a = allocated h" and n: "objects h a = None" and no: "a \<notin> owned h"
    and fr1: "frame h h1" and m1: "m_map_at h1 = m_map_at h"
    and lt: "a < allocated h1"
    by blast+
  have cc: "c' = c" using cf c by simp
  have ow1: "owned h1 = owned h" using m1 by (simp add: owned_def)
  have w1: "within_allocated h1" using fr1 by (simp add: frame_def)
  from src obtain d other where g: "get_at name n h = Some d"
    and o: "objects h (function_at d) = Some other"
    and cp: "CallbackContainer_copy other = Some c"
    using p cc by (auto simp: CallbackContainer_bool_def CallbackContainer_default_def)
  have eq: "c = other" using cp p by (rule copy_populated)
  have dn: "function_at d \<in> owned h"
  proof -
    from g obtain vec where "m_map_at h name = Some vec" "d \<in> set vec"
      by (auto simp: get_at_def find_Some_iff split: option.splits)
    then show ?thesis unfolding owned_iff by blast
  qed
  then have da: "function_at d \<noteq> a" using wo[of "function_at d"] a by simp
  have o1: "objects h1 (function_at d) = Some other"
    using k o da by (auto simp: construct_def)
  have g1: "get_at name n h1 = Some d" using g m1 by (simp add: get_at_def)
  have r: "add_callback_at lib name n fn h1 =
      Some (h1\<lparr>objects := (objects h1)(function_at d \<mapsto> holding fn)\<rparr>)"
    using add_callback_at_registered[OF g1 o1] .
  have fr2: "frame h1 h2" using run_at_frame[OF w1 post] .
  have keep: "objects h2 a = objects h1 a \<and> a \<notin> owned h2"
    using fr2 lt no ow1 by (simp add: frame_def)
  have entry: "\<exists>d other. get_at name n h = Some d \<and> function_at d \<noteq> a \<and>
        objects h (function_at d) = Some other \<and>
        objects h1 (function_at d) = Some other \<and>
        type c = type other \<and> callback c = callback other \<and>
        (\<exists>h3. add_callback_at lib name n fn h1 = Some h3 \<and>
           objects h3 (function_at d) = Some (holding fn) \<and>
           objects h3 a = Some c)"
  proof (intro conjI exI)
    show "get_at name n h = Some d" by (rule g)
    show "function_at d \<noteq> a" by (rule da)
    show "objects h (function_at d) = Some other" by (rule o)
    show "objects h1 (function_at d) = Some other" by (rule o1)
    show "type c = type other" using eq by simp
    show "callback c = callback other" using eq by simp
    show "add_callback_at lib name n fn h1 =
        Some (h1\<lparr>objects := (objects h1)(function_at d \<mapsto> holding fn)\<rparr>)" by (rule r)
    show "objects (h1\<lparr>objects := (objects h1)(function_at d \<mapsto> holding fn)\<rparr>) (function_at d) =
        Some (holding fn)" by simp
    show "objects (h1\<lparr>objects := (objects h1)(function_at d \<mapsto> holding fn)\<rparr>) a = Some c"
      using da c by simp
  qed
  show ?thesis
  proof (intro conjI)
    show "objects h a = None" by (rule n)
    show "a \<notin> owned h1" using no ow1 by simp
    show "\<exists>d other. get_at name n h = Some d \<and> function_at d \<noteq> a \<and>
        objects h (function_at d) = Some other \<and>
        objects h1 (function_at d) = Some other \<and>
        type c = type other \<and> callback c = callback other \<and>
        (\<exists>h3. add_callback_at lib name n fn h1 = Some h3 \<and>
           objects h3 (function_at d) = Some (holding fn) \<and>
           objects h3 a = Some c)" by (rule entry)
    show "tag_describes_payload c" using cp p by (rule copy_populated_described)
    show "objects h2 a = Some c" using keep c by simp
    show "a \<notin> owned h2" using keep by simp
    show "\<exists>rs g b g1 e rs' g2.
        run_at lib hist memory_default = Some (rs, g) \<and> within_allocated g \<and>
        find_callback_at nm ar g = Some (b, g1) \<and> objects g1 b = Some e \<and>
        run_at lib later g1 = Some (rs', g2)" by (rule defined)
  qed
qed

lemma run_at_example:
  "\<exists>rs1 h a h1 rs2 h2.
     run_at \<lparr>reallocates = (\<lambda>k. True), moved_value = (\<lambda>f. f), moved_streaming = (\<lambda>g. g)\<rparr>
       [Add_callback ''join'' 2 (StreamingCallbackFunction (8::nat)),
        Add_builtin ''join'' 1 (Op (1::nat))]
       (memory_default :: (nat, nat, nat) memory) = Some (rs1, h) \<and>
     find_callback_at ''join'' 2 h = Some (a, h1) \<and>
     run_at \<lparr>reallocates = (\<lambda>k. True), moved_value = (\<lambda>f. f), moved_streaming = (\<lambda>g. g)\<rparr>
       [Add_callback ''join'' 3 (ValueCallbackFunction (7::nat)),
        Add_callback ''join'' 2 (ValueCallbackFunction 9)] h1 = Some (rs2, h2) \<and>
     a = 3 \<and>
     objects h1 a = Some \<lparr>type = STREAMING, callback = Callback_streaming 8\<rparr> \<and>
     get_at ''join'' 2 h = Some \<lparr>num_args_at = 2, op_at = Nop, function_at = 1\<rparr> \<and>
     get_at ''join'' 2 h2 = Some \<lparr>num_args_at = 2, op_at = Nop, function_at = 4\<rparr> \<and>
     objects h2 4 = Some \<lparr>type = VALUE, callback = Callback_value 9\<rparr> \<and>
     objects h2 1 = None"
  by (simp add: memory_default_def add_callback_at_def add_builtin_at_def get_or_new_at_def
      reallocate_def construct_def find_callback_at_def get_at_def CallbackContainer_move_def
      CallbackContainer_default_def CallbackContainer_destroy_def CallbackContainer_assign_move_def
      CallbackContainer_streaming_def CallbackContainer_value_def CallbackContainer_copy_def)

theorem returned_copy_is_independent_witness:
  "\<exists>rs1 h a h1 rs2 h2.
     run_at \<lparr>reallocates = (\<lambda>k. True), moved_value = (\<lambda>f. f), moved_streaming = (\<lambda>g. g)\<rparr>
       [Add_callback ''join'' 2 (StreamingCallbackFunction (8::nat)),
        Add_builtin ''join'' 1 (Op (1::nat))]
       (memory_default :: (nat, nat, nat) memory) = Some (rs1, h) \<and>
     find_callback_at ''join'' 2 h = Some (a, h1) \<and>
     run_at \<lparr>reallocates = (\<lambda>k. True), moved_value = (\<lambda>f. f), moved_streaming = (\<lambda>g. g)\<rparr>
       [Add_callback ''join'' 3 (ValueCallbackFunction (7::nat)),
        Add_callback ''join'' 2 (ValueCallbackFunction 9)] h1 = Some (rs2, h2) \<and>
     objects h a = None \<and>
     objects h1 a = Some \<lparr>type = STREAMING, callback = Callback_streaming 8\<rparr> \<and>
     objects h2 a = Some \<lparr>type = STREAMING, callback = Callback_streaming 8\<rparr> \<and>
     a \<notin> owned h2 \<and>
     get_at ''join'' 2 h = Some \<lparr>num_args_at = 2, op_at = Nop, function_at = 1\<rparr> \<and>
     get_at ''join'' 2 h2 = Some \<lparr>num_args_at = 2, op_at = Nop, function_at = 4\<rparr> \<and>
     objects h2 4 = Some \<lparr>type = VALUE, callback = Callback_value 9\<rparr> \<and>
     objects h2 1 = None"
proof -
  let ?lib = "\<lparr>reallocates = (\<lambda>k. True), moved_value = (\<lambda>f. f), moved_streaming = (\<lambda>g. g)\<rparr>
      :: (nat, nat) library"
  let ?pre = "[Add_callback ''join'' 2 (StreamingCallbackFunction (8::nat)),
        Add_builtin ''join'' 1 (Op (1::nat))] :: (nat, nat, nat) call list"
  let ?post = "[Add_callback ''join'' 3 (ValueCallbackFunction (7::nat)),
        Add_callback ''join'' 2 (ValueCallbackFunction 9)] :: (nat, nat, nat) call list"
  let ?c = "\<lparr>type = STREAMING, callback = Callback_streaming (8::nat)\<rparr> :: (nat, nat) CallbackContainer"
  from run_at_example obtain rs1 h a h1 rs2 h2 where
    pre: "run_at ?lib ?pre (memory_default :: (nat, nat, nat) memory) = Some (rs1, h)"
    and f: "find_callback_at ''join'' 2 h = Some (a, h1)"
    and post: "run_at ?lib ?post h1 = Some (rs2, h2)"
    and c: "objects h1 a = Some ?c"
    and g2: "get_at ''join'' 2 h2 = Some \<lparr>num_args_at = 2, op_at = Nop, function_at = 4\<rparr>"
    and o2: "objects h2 4 = Some \<lparr>type = VALUE, callback = Callback_value 9\<rparr>"
    and g0: "get_at ''join'' 2 h = Some \<lparr>num_args_at = 2, op_at = Nop, function_at = 1\<rparr>"
    and o1: "objects h2 1 = None"
    by (elim exE conjE)
  have w: "within_allocated h"
    using run_at_frame[OF within_allocated_default pre] by (simp add: frame_def)
  have p: "CallbackContainer_bool ?c" by (simp add: CallbackContainer_bool_def)
  note t = returned_copy_is_independent
    [where fn = "ValueCallbackFunction 9" and hist = "[] :: (nat, nat, nat) call list"
       and nm = "''join''" and ar = 2 and later = "[] :: (nat, nat, nat) call list",
     OF w f c p post]
  from t have n: "objects h a = None" by (elim conjE)
  from t have k: "objects h2 a = Some ?c" by (elim conjE)
  from t have no: "a \<notin> owned h2" by (elim conjE)
  show ?thesis
    using pre f post n c k no g0 g2 o2 o1 by (intro exI conjI)
qed

end
